theory Spec2Isabelle
  imports Complex_Main "HOL-Library.Log_Nat"
begin

section \<open>Python strings used by doc\_steward.py\<close>

text \<open>
  Source text is modelled as a \<^typ>\<open>string\<close> of ASCII characters, after the
  newline translation of Python's text mode (every line ends with the newline character).
  The string methods below are the ones the source calls, restricted to ASCII.
\<close>

abbreviation NL :: char where
  "NL \<equiv> CHR 0x0A"

abbreviation SP :: char where
  "SP \<equiv> CHR 0x20"

abbreviation TAB :: char where
  "TAB \<equiv> CHR 0x09"

definition isspace :: "char \<Rightarrow> bool" where
  "isspace c = (c \<in> set [TAB, NL, CHR 0x0B, CHR 0x0C, CHR 0x0D,
                         CHR 0x1C, CHR 0x1D, CHR 0x1E, CHR 0x1F, SP])"

text \<open>\<^verbatim>\<open>s.lstrip()\<close>\<close>

definition lstrip :: "string \<Rightarrow> string" where
  "lstrip s = dropWhile isspace s"

text \<open>\<^verbatim>\<open>s.split('\n')\<close>: always at least one piece.\<close>

fun split_nl :: "string \<Rightarrow> string list" where
  "split_nl [] = [[]]"
| "split_nl (c # cs) =
     (if c = NL then [] # split_nl cs
      else (case split_nl cs of [] \<Rightarrow> [[c]] | l # ls \<Rightarrow> (c # l) # ls))"

text \<open>\<^verbatim>\<open>'\n'.join(lines)\<close>\<close>

fun join_nl :: "string list \<Rightarrow> string" where
  "join_nl [] = []"
| "join_nl [l] = l"
| "join_nl (l # ls) = l @ NL # join_nl ls"

text \<open>\<^verbatim>\<open>s.expandtabs()\<close> with the default tab size 8; the column restarts after
  a newline or a carriage return.\<close>

fun expandtabs_from :: "nat \<Rightarrow> string \<Rightarrow> string" where
  "expandtabs_from col [] = []"
| "expandtabs_from col (c # cs) =
     (if c = TAB then
        (let incr = 8 - col mod 8 in replicate incr SP @ expandtabs_from (col + incr) cs)
      else if c = NL \<or> c = CHR 0x0D then c # expandtabs_from 0 cs
      else c # expandtabs_from (Suc col) cs)"

definition expandtabs :: "string \<Rightarrow> string" where
  "expandtabs s = expandtabs_from 0 s"

definition upper_char :: "char \<Rightarrow> char" where
  "upper_char c =
     (if (97::nat) \<le> of_char c \<and> of_char c \<le> (122::nat)
      then char_of (of_char c - (32::nat)) else c)"

definition lower_char :: "char \<Rightarrow> char" where
  "lower_char c =
     (if (65::nat) \<le> of_char c \<and> of_char c \<le> (90::nat)
      then char_of (of_char c + (32::nat)) else c)"

text \<open>\<^verbatim>\<open>s.capitalize()\<close>: the first character upper-cased, every other character
  lower-cased.\<close>

fun capitalize :: "string \<Rightarrow> string" where
  "capitalize [] = []"
| "capitalize (c # cs) = upper_char c # map lower_char cs"

text \<open>\<^verbatim>\<open>s.replace("_", " ")\<close>\<close>

definition replace_underscores :: "string \<Rightarrow> string" where
  "replace_underscores s = map (\<lambda>c. if c = CHR ''_'' then SP else c) s"

text \<open>\<^verbatim>\<open>f.readlines()\<close>: the lines of a text, each with its terminator.\<close>

fun readlines :: "string \<Rightarrow> string list" where
  "readlines [] = []"
| "readlines (c # cs) =
     (if c = NL then [c] # readlines cs
      else (case readlines cs of [] \<Rightarrow> [[c]] | l # ls \<Rightarrow> (c # l) # ls))"

text \<open>\<^verbatim>\<open>os.path.basename(p)\<close> on a POSIX path.\<close>

definition basename :: "string \<Rightarrow> string" where
  "basename p = rev (takeWhile (\<lambda>c. c \<noteq> CHR ''/'') (rev p))"

section \<open>The standard library's docstring access\<close>

text \<open>
  \<^verbatim>\<open>inspect.cleandoc\<close> (CPython 3.11): expand tabs, split into lines, strip the
  first line, remove the common margin of the non-blank later lines, drop trailing and
  then leading empty lines, join.
\<close>

definition margin_of :: "string list \<Rightarrow> nat option" where
  "margin_of ls =
     fold (\<lambda>line m.
             let content = length (lstrip line) in
             if content \<noteq> 0 then
               (let indent = length line - content in
                case m of None \<Rightarrow> Some indent | Some k \<Rightarrow> Some (min k indent))
             else m)
          ls None"

fun pop_trailing_empty :: "string list \<Rightarrow> string list" where
  "pop_trailing_empty ls = rev (dropWhile (\<lambda>l. l = []) (rev ls))"

fun pop_leading_empty :: "string list \<Rightarrow> string list" where
  "pop_leading_empty ls = dropWhile (\<lambda>l. l = []) ls"

definition cleandoc :: "string \<Rightarrow> string" where
  "cleandoc doc =
     (case split_nl (expandtabs doc) of
        [] \<Rightarrow> []
      | l0 # rest \<Rightarrow>
          (let rest' = (case margin_of rest of None \<Rightarrow> rest
                        | Some m \<Rightarrow> map (drop m) rest)
           in join_nl (pop_leading_empty (pop_trailing_empty (lstrip l0 # rest')))))"

section \<open>The syntax tree\<close>

text \<open>
  The part of Python's \<^verbatim>\<open>ast\<close> that the extractor looks at. An expression is
  either a string constant or something else. A statement is a function definition
  (ordinary or asynchronous), a class definition, an expression statement, a compound
  statement (if, for, while, with, try, match: its nested statements in field order), or
  any other simple statement. Definitions carry \<^verbatim>\<open>lineno\<close> and
  \<^verbatim>\<open>end_lineno\<close>.
\<close>

datatype expr = Constant_str string | Other_expr

datatype arguments =
  Arguments (posonlyargs: "string list") (arguments_args: "string list")
            (vararg: "string option") (kwonlyargs: "string list") (kwarg: "string option")

datatype stmt =
    FunctionDef string arguments "stmt list" nat nat
  | AsyncFunctionDef string arguments "stmt list" nat nat
  | ClassDef string "stmt list" nat nat
  | Expr expr
  | Compound "stmt list"
  | Simple

datatype module_node = Module (module_body: "stmt list")

text \<open>\<^verbatim>\<open>ast.get_docstring(node)\<close>, on the body of a module, class or function.\<close>

fun get_docstring :: "stmt list \<Rightarrow> string option" where
  "get_docstring (Expr (Constant_str text) # _) = Some (cleandoc text)"
| "get_docstring _ = None"

text \<open>Truth value of a \<^verbatim>\<open>"docstring"\<close> entry: \<^verbatim>\<open>None\<close> and the empty
  string are false.\<close>

fun truthy :: "string option \<Rightarrow> bool" where
  "truthy None = False"
| "truthy (Some s) = (s \<noteq> [])"

section \<open>DocstringExtractor\<close>

record info =
  name :: string
  docstring :: "string option"
  line :: nat

record span_info = info +
  end_line :: nat

record func_info = span_info +
  args :: "string list"

record class_info = span_info +
  methods :: "func_info list"

text \<open>The key \<^verbatim>\<open>"functions"\<close> is written \<open>functions'\<close>.\<close>

record entities =
  module :: info
  classes :: "class_info list"
  functions' :: "func_info list"

text \<open>
  The visitor's state. \<^verbatim>\<open>_current_class\<close> aliases one of the dictionaries
  in \<^verbatim>\<open>entities["classes"]\<close>; the list only grows, so the alias is the index
  of that dictionary.
\<close>

record extractor =
  ents :: entities
  current_class :: "nat option"

definition init_extractor :: extractor where
  "init_extractor =
     \<lparr>ents = \<lparr>module = \<lparr>name = ''Module'', docstring = None, line = 1\<rparr>,
              classes = [], functions' = []\<rparr>,
      current_class = None\<rparr>"

definition callable_info :: "string \<Rightarrow> arguments \<Rightarrow> stmt list \<Rightarrow> nat \<Rightarrow> nat \<Rightarrow> func_info" where
  "callable_info n a body l e =
     \<lparr>name = n, docstring = get_docstring body, line = l, end_line = e,
      args = filter (\<lambda>arg. arg \<notin> set [''self'', ''cls'']) (arguments_args a)\<rparr>"

definition visit_callable ::
  "string \<Rightarrow> arguments \<Rightarrow> stmt list \<Rightarrow> nat \<Rightarrow> nat \<Rightarrow> extractor \<Rightarrow> extractor" where
  "visit_callable n a body l e st =
     (let func_info = callable_info n a body l e in
      case current_class st of
        Some i \<Rightarrow>
          st\<lparr>ents := (ents st)\<lparr>classes :=
                (classes (ents st))[i := (classes (ents st) ! i)
                   \<lparr>methods := methods (classes (ents st) ! i) @ [func_info]\<rparr>]\<rparr>\<rparr>
      | None \<Rightarrow>
          st\<lparr>ents := (ents st)\<lparr>functions' := functions' (ents st) @ [func_info]\<rparr>\<rparr>)"

definition new_class_info :: "string \<Rightarrow> stmt list \<Rightarrow> nat \<Rightarrow> nat \<Rightarrow> class_info" where
  "new_class_info n body l e =
     \<lparr>name = n, docstring = get_docstring body, line = l, end_line = e, methods = []\<rparr>"

fun visit :: "stmt \<Rightarrow> extractor \<Rightarrow> extractor" where
  "visit (FunctionDef n a body l e) st = visit_callable n a body l e st"
| "visit (AsyncFunctionDef n a body l e) st = visit_callable n a body l e st"
| "visit (ClassDef n body l e) st =
     (let class_info = new_class_info n body l e;
          st1 = st\<lparr>ents := (ents st)\<lparr>classes := classes (ents st) @ [class_info]\<rparr>\<rparr>;
          old_class = current_class st1;
          st2 = st1\<lparr>current_class := Some (length (classes (ents st)))\<rparr>;
          st3 = fold visit body st2
      in st3\<lparr>current_class := old_class\<rparr>)"
| "visit (Expr v) st = st"
| "visit (Compound body) st = fold visit body st"
| "visit Simple st = st"

definition visit_Module :: "module_node \<Rightarrow> extractor \<Rightarrow> extractor" where
  "visit_Module node st =
     (let st1 = st\<lparr>ents := (ents st)\<lparr>module :=
                   (module (ents st))\<lparr>docstring := get_docstring (module_body node)\<rparr>\<rparr>\<rparr>
      in fold visit (module_body node) st1)"

text \<open>\<^verbatim>\<open>extractor = DocstringExtractor(file_path); extractor.visit(tree);
  return extractor.entities\<close>\<close>

definition run_extractor :: "module_node \<Rightarrow> entities" where
  "run_extractor tree = ents (visit_Module tree init_extractor)"

section \<open>Files, parsing and analyze\_file\<close>

text \<open>
  A path names nothing, a readable text file, or something that exists but cannot be
  opened for reading as text (a directory, a file without permission). The parser
  \<^verbatim>\<open>ast.parse\<close> is a parameter: it returns a tree, or nothing when it raises
  \<^verbatim>\<open>SyntaxError\<close>.
\<close>

datatype fnode = File string | Unreadable

type_synonym filesystem = "string \<Rightarrow> fnode option"

type_synonym parser = "string \<Rightarrow> module_node option"

datatype error = FileNotFoundError | OSError | SyntaxError | IndexError

definition exists_path :: "filesystem \<Rightarrow> string \<Rightarrow> bool" where
  "exists_path fs file_path = (fs file_path \<noteq> None)"

definition read_text :: "filesystem \<Rightarrow> string \<Rightarrow> error + string" where
  "read_text fs file_path =
     (case fs file_path of
        None \<Rightarrow> Inl FileNotFoundError
      | Some Unreadable \<Rightarrow> Inl OSError
      | Some (File source) \<Rightarrow> Inr source)"

definition analyze_file :: "parser \<Rightarrow> filesystem \<Rightarrow> string \<Rightarrow> error + entities" where
  "analyze_file parse fs file_path =
     (case read_text fs file_path of
        Inl e \<Rightarrow> Inl e
      | Inr source \<Rightarrow>
          (case parse source of
             None \<Rightarrow> Inl SyntaxError
           | Some tree \<Rightarrow> Inr (run_extractor tree)))"

section \<open>get\_entity\_list\<close>

record entity_row =
  Function_Name :: string
  Type :: string
  Start_Line :: nat
  End_Line :: nat
  Has_Docstring :: bool

definition row_of :: "string \<Rightarrow> 'a span_info_scheme \<Rightarrow> entity_row" where
  "row_of ty f =
     \<lparr>Function_Name = name f, Type = ty, Start_Line = line f, End_Line = end_line f,
      Has_Docstring = truthy (docstring f)\<rparr>"

definition entity_rows :: "entities \<Rightarrow> entity_row list" where
  "entity_rows e =
     (let entity_list = fold (\<lambda>f acc. acc @ [row_of ''Function'' f]) (functions' e) [];
          entity_list = fold (\<lambda>cls acc.
                           fold (\<lambda>m acc. acc @ [row_of ''Method'' m]) (methods cls)
                                (acc @ [row_of ''Class'' cls]))
                          (classes e) entity_list
      in entity_list)"

definition get_entity_list :: "parser \<Rightarrow> filesystem \<Rightarrow> string \<Rightarrow> error + entity_row list" where
  "get_entity_list parse fs file_path =
     (case analyze_file parse fs file_path of
        Inl e \<Rightarrow> Inl e
      | Inr entities \<Rightarrow> Inr (entity_rows entities))"

section \<open>generate\_google\_docstring\<close>

definition triple_quote :: string where
  "triple_quote = [CHR 0x22, CHR 0x22, CHR 0x22]"

text \<open>\<^verbatim>\<open>args\<close> defaults to \<^verbatim>\<open>None\<close>; \<^verbatim>\<open>if args\<close> holds for a non-empty
  list. \<^verbatim>\<open>" " * indent\<close> is empty for a negative \<^verbatim>\<open>indent\<close>.\<close>

definition generate_google_docstring ::
  "string \<Rightarrow> string list option \<Rightarrow> bool \<Rightarrow> int \<Rightarrow> string" where
  "generate_google_docstring nm as is_class indent =
     (let prefix = replicate (nat indent) SP;
          doc = prefix @ triple_quote @ capitalize (replace_underscores nm) @ ''.'' @ [NL, NL];
          doc = (case as of
                   None \<Rightarrow> doc
                 | Some l \<Rightarrow>
                     if l \<noteq> [] then
                       fold (\<lambda>arg doc. doc @ prefix @ ''    '' @ arg @ '': Description of ''
                                         @ arg @ ''.'' @ [NL])
                            l (doc @ prefix @ ''Args:'' @ [NL])
                     else doc);
          doc = (if \<not> is_class then
                   doc @ [NL] @ prefix @ ''Returns:'' @ [NL]
                       @ prefix @ ''    Description of the return value.'' @ [NL]
                 else doc)
      in doc @ prefix @ triple_quote)"

section \<open>generate\_coverage\_report\<close>

text \<open>
  Percentages are Python floats. A float is modelled by the rational number it stands
  for, and every operation rounds its exact result to the nearest IEEE 754 binary64
  number, a tie to the one with the even significand: \<^verbatim>\<open>a / b\<close> on two integers is
  the correctly rounded quotient, \<^verbatim>\<open>x * 100\<close> the correctly rounded product. The
  results stay far below the overflow threshold (a ratio of counts is at most 1). For a
  positive \<open>x\<close>, \<open>binary_exponent x\<close> is the exponent \<open>e\<close> with
  \<open>2 ^ e \<le> x < 2 ^ (e + 1)\<close>; a binary64 number with this exponent is a multiple of
  \<open>2 ^ (e - 52)\<close>, and below the exponent -1022 the spacing is that of the subnormal
  numbers, \<open>2 ^ (- 1074)\<close>.
\<close>

text \<open>The nearest integer, a tie to the even one.\<close>

definition round_half_even :: "rat \<Rightarrow> int" where
  "round_half_even y =
     (let f = \<lfloor>y\<rfloor>; r = y - of_int f
      in if r < 1 / 2 then f
         else if 1 / 2 < r then f + 1
         else if even f then f else f + 1)"

definition binary_exponent :: "rat \<Rightarrow> int" where
  "binary_exponent x =
     (case quotient_of x of
        (a, b) \<Rightarrow>
          (let e0 = bitlen a - bitlen b
           in if power_int 2 e0 \<le> x then e0 else e0 - 1))"

definition to_float :: "rat \<Rightarrow> rat" where
  "to_float x =
     (if x = 0 then 0
      else
        (let e = max (binary_exponent \<bar>x\<bar>) (- 1022);
             q = power_int 2 (e - 52)
         in sgn x * of_int (round_half_even (\<bar>x\<bar> / q)) * q))"

definition float_div :: "rat \<Rightarrow> rat \<Rightarrow> rat" where
  "float_div a b = to_float (a / b)"

definition float_mul :: "rat \<Rightarrow> rat \<Rightarrow> rat" where
  "float_mul a b = to_float (a * b)"

text \<open>
  \<^verbatim>\<open>round(x, 2)\<close>: the decimal with two places nearest to the float's exact value (a
  tie to the even one), and then the float nearest to that decimal.
\<close>

definition round2 :: "rat \<Rightarrow> rat" where
  "round2 x = to_float (of_int (round_half_even (x * 100)) / 100)"

record file_stats =
  total :: nat
  documented :: nat

record file_detail =
  coverage :: rat
  stats :: file_stats

record report_counts =
  files_analyzed :: nat
  total_entities :: nat
  documented_entities :: nat
  details :: "string \<rightharpoonup> file_detail"

record report = report_counts +
  overall_coverage :: rat

definition check :: "'a info_scheme \<Rightarrow> file_stats \<Rightarrow> file_stats" where
  "check item file_stats =
     (let file_stats = file_stats\<lparr>total := total file_stats + 1\<rparr>
      in if truthy (docstring item)
         then file_stats\<lparr>documented := documented file_stats + 1\<rparr>
         else file_stats)"

definition count_file :: "entities \<Rightarrow> file_stats" where
  "count_file entities =
     (let file_stats = \<lparr>total = 0, documented = 0\<rparr>;
          file_stats = check (module entities) file_stats;
          file_stats = fold (\<lambda>cls st. fold check (methods cls) (check cls st))
                            (classes entities) file_stats;
          file_stats = fold check (functions' entities) file_stats
      in file_stats)"

text \<open>\<^verbatim>\<open>(documented / total * 100) if total > 0 else 0.0\<close>\<close>

definition percent :: "nat \<Rightarrow> nat \<Rightarrow> rat" where
  "percent d t = (if t > 0 then float_mul (float_div (of_nat d) (of_nat t)) 100 else 0)"

fun coverage_loop ::
  "parser \<Rightarrow> filesystem \<Rightarrow> string list \<Rightarrow> report_counts \<Rightarrow> error + report_counts" where
  "coverage_loop parse fs [] report = Inr report"
| "coverage_loop parse fs (file_path # files) report =
     (if \<not> exists_path fs file_path then coverage_loop parse fs files report
      else
        (case analyze_file parse fs file_path of
           Inl e \<Rightarrow> Inl e
         | Inr entities \<Rightarrow>
             (let file_stats = count_file entities;
                  report = report\<lparr>total_entities := total_entities report + total file_stats\<rparr>;
                  report = report\<lparr>documented_entities :=
                                    documented_entities report + documented file_stats\<rparr>;
                  coverage = percent (documented file_stats) (total file_stats);
                  report = report\<lparr>details := (details report)(file_path \<mapsto>
                                    \<lparr>coverage = round2 coverage, stats = file_stats\<rparr>)\<rparr>
              in coverage_loop parse fs files report)))"

definition generate_coverage_report ::
  "parser \<Rightarrow> filesystem \<Rightarrow> string list \<Rightarrow> error + report" where
  "generate_coverage_report parse fs files =
     (let report = \<lparr>files_analyzed = length files, total_entities = 0,
                     documented_entities = 0, details = Map.empty\<rparr>
      in case coverage_loop parse fs files report of
           Inl e \<Rightarrow> Inl e
         | Inr report \<Rightarrow>
             Inr (report_counts.extend report
                    \<lparr>overall_coverage =
                       (if total_entities report > 0
                        then round2 (float_mul (float_div (of_nat (documented_entities report)) (of_nat (total_entities report))) 100)
                        else 0)\<rparr>))"

section \<open>apply\_missing\_docstrings\<close>

text \<open>\<^verbatim>\<open>lines[i]\<close>: a negative index counts from the end; out of range raises.\<close>

definition getitem :: "'a list \<Rightarrow> int \<Rightarrow> error + 'a" where
  "getitem xs i =
     (if 0 \<le> i \<and> i < int (length xs) then Inr (xs ! nat i)
      else if i < 0 \<and> - int (length xs) \<le> i then Inr (xs ! nat (int (length xs) + i))
      else Inl IndexError)"

text \<open>\<^verbatim>\<open>lines.insert(i, x)\<close> for \<open>i \<ge> 0\<close>: past the end it appends.\<close>

definition list_insert :: "nat \<Rightarrow> 'a \<Rightarrow> 'a list \<Rightarrow> 'a list" where
  "list_insert i x xs = take i xs @ x # drop i xs"

text \<open>\<^verbatim>\<open>len(def_line) - len(def_line.lstrip())\<close>\<close>

definition indent_of :: "string \<Rightarrow> nat" where
  "indent_of def_line = length def_line - length (lstrip def_line)"

definition pending_callable :: "string list \<Rightarrow> func_info \<Rightarrow> error + (nat \<times> string) list" where
  "pending_callable lines f =
     (if \<not> truthy (docstring f) then
        (case getitem lines (int (line f) - 1) of
           Inl e \<Rightarrow> Inl e
         | Inr def_line \<Rightarrow>
             Inr [(line f, generate_google_docstring (name f) (Some (args f)) False
                             (int (indent_of def_line) + 4))])
      else Inr [])"

definition pending_class_header :: "string list \<Rightarrow> class_info \<Rightarrow> error + (nat \<times> string) list" where
  "pending_class_header lines cls =
     (if \<not> truthy (docstring cls) then
        (case getitem lines (int (line cls) - 1) of
           Inl e \<Rightarrow> Inl e
         | Inr def_line \<Rightarrow>
             Inr [(line cls, generate_google_docstring (name cls) None True
                               (int (indent_of def_line) + 4))])
      else Inr [])"

text \<open>Running a loop body over a list and appending what each round adds to
  \<^verbatim>\<open>to_add\<close>; the first exception ends the loop.\<close>

fun collect :: "('a \<Rightarrow> error + 'b list) \<Rightarrow> 'a list \<Rightarrow> 'b list \<Rightarrow> error + 'b list" where
  "collect body [] to_add = Inr to_add"
| "collect body (x # xs) to_add =
     (case body x of Inl e \<Rightarrow> Inl e | Inr new \<Rightarrow> collect body xs (to_add @ new))"

definition pending_class :: "string list \<Rightarrow> class_info \<Rightarrow> error + (nat \<times> string) list" where
  "pending_class lines cls =
     (case pending_class_header lines cls of
        Inl e \<Rightarrow> Inl e
      | Inr to_add \<Rightarrow> collect (pending_callable lines) (methods cls) to_add)"

definition module_docstring :: "string \<Rightarrow> string" where
  "module_docstring file_path =
     triple_quote @ capitalize (basename file_path) @ '' module.'' @ triple_quote @ [NL]"

definition collect_to_add ::
  "string \<Rightarrow> string list \<Rightarrow> entities \<Rightarrow> error + (nat \<times> string) list" where
  "collect_to_add file_path lines entities =
     (case collect (pending_callable lines) (functions' entities) [] of
        Inl e \<Rightarrow> Inl e
      | Inr to_add \<Rightarrow>
          (case collect (pending_class lines) (classes entities) to_add of
             Inl e \<Rightarrow> Inl e
           | Inr to_add \<Rightarrow>
               Inr (if \<not> truthy (docstring (module entities))
                    then to_add @ [(0, module_docstring file_path)]
                    else to_add)))"

text \<open>\<^verbatim>\<open>to_add.sort(key=lambda x: x[0], reverse=True)\<close>: a stable sort, descending;
  entries with the same line keep their order.\<close>

definition sort_descending :: "(nat \<times> string) list \<Rightarrow> (nat \<times> string) list" where
  "sort_descending to_add = rev (sort_key fst (rev to_add))"

text \<open>The \<^verbatim>\<open>while\<close> loop looking for a line with a colon.\<close>

function find_colon :: "string list \<Rightarrow> nat \<Rightarrow> nat" where
  "find_colon lines curr_idx =
     (if curr_idx < length lines \<and> CHR '':'' \<notin> set (lines ! curr_idx)
      then find_colon lines (curr_idx + 1)
      else curr_idx)"
  by pat_completeness auto
termination
  by (relation "measure (\<lambda>(lines, curr_idx). length lines - curr_idx)") auto

definition insert_doc :: "string list \<Rightarrow> nat \<times> string \<Rightarrow> string list" where
  "insert_doc lines entry =
     (case entry of (line_idx, doc_str) \<Rightarrow>
        if line_idx = 0 then list_insert 0 (doc_str @ [NL]) lines
        else
          (let curr_idx = find_colon lines (line_idx - 1)
           in list_insert (curr_idx + 1) (doc_str @ [NL]) lines))"

definition rewrite_lines :: "string list \<Rightarrow> (nat \<times> string) list \<Rightarrow> string list" where
  "rewrite_lines lines to_add = foldl insert_doc lines (sort_descending to_add)"

definition apply_missing_docstrings ::
  "parser \<Rightarrow> filesystem \<Rightarrow> string \<Rightarrow> error + filesystem" where
  "apply_missing_docstrings parse fs file_path =
     (case analyze_file parse fs file_path of
        Inl e \<Rightarrow> Inl e
      | Inr entities \<Rightarrow>
          (case read_text fs file_path of
             Inl e \<Rightarrow> Inl e
           | Inr source \<Rightarrow>
               (let lines = readlines source in
                case collect_to_add file_path lines entities of
                  Inl e \<Rightarrow> Inl e
                | Inr to_add \<Rightarrow>
                    Inr (fs(file_path \<mapsto> File (concat (rewrite_lines lines to_add)))))))"

section \<open>The inventory as a function of the tree\<close>

text \<open>
  What the visitor collects, written without state. \<open>top_funcs\<close> are the callables
  reached from a statement without entering a function or a class, in traversal order;
  \<open>all_classes\<close> are the classes reached without entering a function, each with the
  callables of its own body, in traversal order.
\<close>

fun top_funcs :: "stmt \<Rightarrow> func_info list" where
  "top_funcs (FunctionDef n a body l e) = [callable_info n a body l e]"
| "top_funcs (AsyncFunctionDef n a body l e) = [callable_info n a body l e]"
| "top_funcs (ClassDef n body l e) = []"
| "top_funcs (Expr v) = []"
| "top_funcs (Compound body) = concat (map top_funcs body)"
| "top_funcs Simple = []"

fun all_classes :: "stmt \<Rightarrow> class_info list" where
  "all_classes (FunctionDef n a body l e) = []"
| "all_classes (AsyncFunctionDef n a body l e) = []"
| "all_classes (ClassDef n body l e) =
     (new_class_info n body l e)\<lparr>methods := concat (map top_funcs body)\<rparr>
       # concat (map all_classes body)"
| "all_classes (Expr v) = []"
| "all_classes (Compound body) = concat (map all_classes body)"
| "all_classes Simple = []"

text \<open>The alias \<^verbatim>\<open>_current_class\<close> points into the list of classes.\<close>

definition wf_extractor :: "extractor \<Rightarrow> bool" where
  "wf_extractor st =
     (case current_class st of None \<Rightarrow> True | Some i \<Rightarrow> i < length (classes (ents st)))"

text \<open>Adding callables to the current target (the current class, or the module) and
  classes to the list of classes.\<close>

definition absorb :: "func_info list \<Rightarrow> class_info list \<Rightarrow> extractor \<Rightarrow> extractor" where
  "absorb fs cs st =
     (case current_class st of
        None \<Rightarrow> st\<lparr>ents := (ents st)\<lparr>classes := classes (ents st) @ cs,
                                     functions' := functions' (ents st) @ fs\<rparr>\<rparr>
      | Some i \<Rightarrow> st\<lparr>ents := (ents st)\<lparr>classes :=
            (classes (ents st))[i := (classes (ents st) ! i)
               \<lparr>methods := methods (classes (ents st) ! i) @ fs\<rparr>] @ cs\<rparr>\<rparr>)"

text \<open>The parameter names a definition declares, in order: positional-only, ordinary,
  \<^verbatim>\<open>*args\<close>, keyword-only, \<^verbatim>\<open>**kwargs\<close>.\<close>

definition declared_parameters :: "arguments \<Rightarrow> string list" where
  "declared_parameters a =
     posonlyargs a @ arguments_args a @ (case vararg a of None \<Rightarrow> [] | Some v \<Rightarrow> [v])
       @ kwonlyargs a @ (case kwarg a of None \<Rightarrow> [] | Some k \<Rightarrow> [k])"

text \<open>
  The declarations of a tree, read off the tree alone. \<open>declared_callables s\<close> are the
  function definitions, ordinary and asynchronous, that the statement \<open>s\<close> declares
  outside any function and any class, in source order, each as its name, its
  \<^verbatim>\<open>arguments\<close> node, its body, \<^verbatim>\<open>lineno\<close> and \<^verbatim>\<open>end_lineno\<close>.
  \<open>declared_classes s\<close> are the class definitions outside any function, a class before
  the classes nested in it, each as its name, body, \<^verbatim>\<open>lineno\<close> and
  \<^verbatim>\<open>end_lineno\<close>.
\<close>

fun declared_callables :: "stmt \<Rightarrow> (string \<times> arguments \<times> stmt list \<times> nat \<times> nat) list" where
  "declared_callables (FunctionDef n a body l e) = [(n, a, body, l, e)]"
| "declared_callables (AsyncFunctionDef n a body l e) = [(n, a, body, l, e)]"
| "declared_callables (ClassDef n body l e) = []"
| "declared_callables (Expr v) = []"
| "declared_callables (Compound body) = concat (map declared_callables body)"
| "declared_callables Simple = []"

fun declared_classes :: "stmt \<Rightarrow> (string \<times> stmt list \<times> nat \<times> nat) list" where
  "declared_classes (FunctionDef n a body l e) = []"
| "declared_classes (AsyncFunctionDef n a body l e) = []"
| "declared_classes (ClassDef n body l e) = (n, body, l, e) # concat (map declared_classes body)"
| "declared_classes (Expr v) = []"
| "declared_classes (Compound body) = concat (map declared_classes body)"
| "declared_classes Simple = []"

text \<open>A body starts with a bare string literal whose cleaned text is not empty.\<close>

fun doc_present :: "stmt list \<Rightarrow> bool" where
  "doc_present (Expr (Constant_str text) # _) = (cleandoc text \<noteq> [])"
| "doc_present _ = False"

text \<open>The name as the specification words it: underscores replaced by spaces and the
  first letter capitalized, nothing else changed.\<close>

definition humanized_name :: "string \<Rightarrow> string" where
  "humanized_name nm =
     (case replace_underscores nm of [] \<Rightarrow> [] | c # cs \<Rightarrow> upper_char c # cs)"

section \<open>Counting declarations\<close>

text \<open>The \<^verbatim>\<open>"docstring"\<close> entries of every declaration of an inventory: the module, each
  class followed by its methods, then the functions.\<close>

definition all_docstrings :: "entities \<Rightarrow> string option list" where
  "all_docstrings e =
     docstring (module e)
       # concat (map (\<lambda>c. docstring c # map docstring (methods c)) (classes e))
       @ map docstring (functions' e)"

text \<open>The statistics and the report entry of one path.\<close>

definition file_count :: "parser \<Rightarrow> filesystem \<Rightarrow> string \<Rightarrow> file_stats" where
  "file_count parse fs file_path =
     (case analyze_file parse fs file_path of
        Inl e \<Rightarrow> \<lparr>total = 0, documented = 0\<rparr>
      | Inr entities \<Rightarrow> count_file entities)"

definition detail_of :: "parser \<Rightarrow> filesystem \<Rightarrow> string \<Rightarrow> file_detail" where
  "detail_of parse fs file_path =
     (let st = file_count parse fs file_path
      in \<lparr>coverage = round2 (percent (documented st) (total st)), stats = st\<rparr>)"

text \<open>The declarations of the file at a path; none when it cannot be analysed.\<close>

definition declarations_of :: "parser \<Rightarrow> filesystem \<Rightarrow> string \<Rightarrow> string option list" where
  "declarations_of parse fs file_path =
     (case analyze_file parse fs file_path of
        Inl e \<Rightarrow> []
      | Inr entities \<Rightarrow> all_docstrings entities)"

section \<open>The rewritten text in one forward pass\<close>

text \<open>Every line of the original text in order, each followed by the blocks whose
  insertion point it is. A point is the index of a line and the text to put after it.\<close>

fun weave_from :: "nat \<Rightarrow> string list \<Rightarrow> (nat \<times> string) list \<Rightarrow> string list" where
  "weave_from m [] pts = []"
| "weave_from m (l # ls) pts =
     l # map snd (filter (\<lambda>pt. fst pt = m) pts) @ weave_from (Suc m) ls pts"

definition weave :: "string list \<Rightarrow> (nat \<times> string) list \<Rightarrow> string list" where
  "weave lines pts = weave_from 0 lines pts"

text \<open>Where the scan for a declaration at line \<open>line_idx\<close> stops in the original text.\<close>

definition insertion_point :: "string list \<Rightarrow> nat \<Rightarrow> nat" where
  "insertion_point lines line_idx = find_colon lines (line_idx - 1)"

section \<open>Sample files\<close>

text \<open>Texts of small Python files with the trees \<^verbatim>\<open>ast.parse\<close> gives for them. A sample
  parser is a table: it knows the sample texts and raises on every other text.\<close>

text \<open>A class declared before a function, and its tree as \<^verbatim>\<open>ast.parse\<close> gives it.\<close>

definition sample_order_src :: string where
  "sample_order_src =
     ''class A:\<newline>    def m(self):\<newline>        pass\<newline>def f():\<newline>    pass\<newline>''"

definition sample_order_tree :: module_node where
  "sample_order_tree = Module
     [ClassDef ''A'' [FunctionDef ''m'' (Arguments [] [''self''] None [] None) [Simple] 2 3] 1 3,
      FunctionDef ''f'' (Arguments [] [] None [] None) [Simple] 4 5]"

text \<open>A module with nothing but a docstring; a module with two undocumented functions;
  a text that does not parse; a directory.\<close>

definition documented_src :: string where
  \<open>documented_src = ''"""Doc."""\<newline>''\<close>

definition documented_tree :: module_node where
  "documented_tree = Module [Expr (Constant_str ''Doc.'')]"

definition two_functions_src :: string where
  "two_functions_src = ''def f():\<newline>    pass\<newline>def g():\<newline>    pass\<newline>''"

definition two_functions_tree :: module_node where
  "two_functions_tree = Module
     [FunctionDef ''f'' (Arguments [] [] None [] None) [Simple] 1 2,
      FunctionDef ''g'' (Arguments [] [] None [] None) [Simple] 3 4]"

definition broken_src :: string where
  "broken_src = ''def (\<newline>''"

definition sample_parse :: parser where
  "sample_parse s =
     (if s = documented_src then Some documented_tree
      else if s = two_functions_src then Some two_functions_tree
      else None)"

definition sample_fs :: filesystem where
  "sample_fs =
     [''a.py'' \<mapsto> File documented_src, ''b.py'' \<mapsto> File two_functions_src,
      ''bad.py'' \<mapsto> File broken_src, ''pkg'' \<mapsto> Unreadable]"

text \<open>A module with a docstring and \<open>n\<close> undocumented one-line functions.\<close>

definition many_functions_src :: "nat \<Rightarrow> string" where
  "many_functions_src n = documented_src @ concat (replicate n ''def f(): pass\<newline>'')"

definition many_functions_tree :: "nat \<Rightarrow> module_node" where
  "many_functions_tree n = Module
     (Expr (Constant_str ''Doc.'')
        # map (\<lambda>i. FunctionDef ''f'' (Arguments [] [] None [] None) [Simple] (i + 2) (i + 2))
              [0..<n])"

text \<open>A function whose header is wrapped across three lines, without and with
  annotations; both have the same tree. A function with a two-line annotated header.\<close>

definition plain_header_src :: string where
  \<open>plain_header_src =
     ''"""Doc."""\<newline>def f(a,\<newline>      b,\<newline>      c):\<newline>    return a\<newline>''\<close>

definition annotated_header_src :: string where
  \<open>annotated_header_src =
     ''"""Doc."""\<newline>def f(a: int,\<newline>      b: int,\<newline>      c: int):\<newline>    return a\<newline>''\<close>

definition three_line_header_tree :: module_node where
  "three_line_header_tree = Module
     [Expr (Constant_str ''Doc.''),
      FunctionDef ''f'' (Arguments [] [''a'', ''b'', ''c''] None [] None) [Simple] 2 5]"

definition wrapped_add_src :: string where
  "wrapped_add_src =
     ''def add(a: int,\<newline>        b: int):\<newline>    return a + b\<newline>''"

definition wrapped_add_tree :: module_node where
  "wrapped_add_tree = Module
     [FunctionDef ''add'' (Arguments [] [''a'', ''b''] None [] None) [Simple] 1 3]"

definition wrapped_add_parse :: parser where
  "wrapped_add_parse s = (if s = wrapped_add_src then Some wrapped_add_tree else None)"

section \<open>The extractor computes the inventory\<close>

lemma absorb_nil: "wf_extractor st \<Longrightarrow> absorb [] [] st = st"
  by (auto simp: absorb_def wf_extractor_def split: option.splits)

lemma wf_absorb: "wf_extractor st \<Longrightarrow> wf_extractor (absorb fs cs st)"
  by (auto simp: absorb_def wf_extractor_def split: option.splits)

lemma absorb_absorb:
  "wf_extractor st \<Longrightarrow> absorb fs2 cs2 (absorb fs1 cs1 st) = absorb (fs1 @ fs2) (cs1 @ cs2) st"
  by (auto simp: absorb_def wf_extractor_def nth_append list_update_append split: option.splits)

lemma fold_absorb:
  assumes "\<And>s st. s \<in> set ss \<Longrightarrow> wf_extractor st \<Longrightarrow> visit s st = absorb (F s) (C s) st"
    and "wf_extractor st"
  shows "fold visit ss st = absorb (concat (map F ss)) (concat (map C ss)) st"
  using assms
proof (induction ss arbitrary: st)
  case Nil
  then show ?case by (simp add: absorb_nil)
next
  case (Cons s ss)
  have "fold visit (s # ss) st = fold visit ss (absorb (F s) (C s) st)"
    using Cons.prems by simp
  also have "\<dots> = absorb (concat (map F ss)) (concat (map C ss)) (absorb (F s) (C s) st)"
    using Cons.prems by (intro Cons.IH) (auto simp: wf_absorb)
  finally show ?case using Cons.prems(2) by (simp add: absorb_absorb)
qed

lemma visit_absorb: "wf_extractor st \<Longrightarrow> visit s st = absorb (top_funcs s) (all_classes s) st"
proof (induction s arbitrary: st)
  case (FunctionDef n a body l e)
  then show ?case
    by (auto simp: visit_callable_def absorb_def wf_extractor_def Let_def split: option.splits)
next
  case (AsyncFunctionDef n a body l e)
  then show ?case
    by (auto simp: visit_callable_def absorb_def wf_extractor_def Let_def split: option.splits)
next
  case (ClassDef n body l e)
  let ?st2 = "st\<lparr>ents := (ents st)\<lparr>classes := classes (ents st) @ [new_class_info n body l e]\<rparr>,
                  current_class := Some (length (classes (ents st)))\<rparr>"
  have wf2: "wf_extractor ?st2" by (simp add: wf_extractor_def)
  have "fold visit body ?st2
        = absorb (concat (map top_funcs body)) (concat (map all_classes body)) ?st2"
    using ClassDef.IH wf2 by (intro fold_absorb) auto
  then show ?case using ClassDef.prems
    by (auto simp: Let_def absorb_def wf_extractor_def new_class_info_def nth_append
             split: option.splits)
next
  case (Compound body)
  then show ?case by (simp add: fold_absorb)
qed (simp_all add: absorb_nil)

lemma run_extractor_eq:
  "run_extractor (Module body) =
     \<lparr>module = \<lparr>name = ''Module'', docstring = get_docstring body, line = 1\<rparr>,
      classes = concat (map all_classes body),
      functions' = concat (map top_funcs body)\<rparr>"
proof -
  let ?st1 = "init_extractor\<lparr>ents := (ents init_extractor)\<lparr>module :=
                (module (ents init_extractor))\<lparr>docstring := get_docstring body\<rparr>\<rparr>\<rparr>"
  have wf: "wf_extractor ?st1" by (simp add: wf_extractor_def init_extractor_def)
  have "fold visit body ?st1
        = absorb (concat (map top_funcs body)) (concat (map all_classes body)) ?st1"
    using wf by (intro fold_absorb) (auto simp: visit_absorb)
  then show ?thesis
    by (simp add: run_extractor_def visit_Module_def Let_def absorb_def init_extractor_def)
qed

lemma truthy_get_docstring: "truthy (get_docstring body) = doc_present body"
  by (induction body rule: doc_present.induct) simp_all

lemma cleandoc_empty: "cleandoc [] = []"
  by (simp add: cleandoc_def expandtabs_def lstrip_def margin_of_def)

section \<open>Parameters of callables\<close>

lemma concat_map_eq:
  "(\<And>x. x \<in> set xs \<Longrightarrow> f x = map g (h x)) \<Longrightarrow> concat (map f xs) = map g (concat (map h xs))"
  by (induction xs) auto

lemma top_funcs_declared:
  "top_funcs s
   = map (\<lambda>(n, a, b, l, e).
            \<lparr>name = n, docstring = get_docstring b, line = l, end_line = e,
             args = filter (\<lambda>p. p \<noteq> ''self'' \<and> p \<noteq> ''cls'') (arguments_args a)\<rparr>)
         (declared_callables s)"
proof (induction s)
  case (Compound body)
  show ?case
    unfolding top_funcs.simps declared_callables.simps
    by (rule concat_map_eq) (rule Compound.IH)
qed (simp_all add: callable_info_def)

lemma all_classes_declared:
  "all_classes s
   = map (\<lambda>(n, b, l, e).
            \<lparr>name = n, docstring = get_docstring b, line = l, end_line = e,
             methods = map (\<lambda>(n, a, b, l, e).
                 \<lparr>name = n, docstring = get_docstring b, line = l, end_line = e,
                  args = filter (\<lambda>p. p \<noteq> ''self'' \<and> p \<noteq> ''cls'') (arguments_args a)\<rparr>)
               (concat (map declared_callables b))\<rparr>)
         (declared_classes s)"
proof -
  let ?C = "\<lambda>(n, b, l, e).
            \<lparr>name = n, docstring = get_docstring b, line = l, end_line = e,
             methods = map (\<lambda>(n, a, b, l, e).
                 \<lparr>name = n, docstring = get_docstring b, line = l, end_line = e,
                  args = filter (\<lambda>p. p \<noteq> ''self'' \<and> p \<noteq> ''cls'') (arguments_args a)\<rparr>)
               (concat (map declared_callables b))\<rparr>"
  have "all_classes s = map ?C (declared_classes s)"
  proof (induction s)
    case (ClassDef n body l e)
    have 1: "concat (map all_classes body) = map ?C (concat (map declared_classes body))"
      by (rule concat_map_eq) (rule ClassDef.IH)
    have 2: "concat (map top_funcs body)
             = map (\<lambda>(n, a, b, l, e).
                 \<lparr>name = n, docstring = get_docstring b, line = l, end_line = e,
                  args = filter (\<lambda>p. p \<noteq> ''self'' \<and> p \<noteq> ''cls'') (arguments_args a)\<rparr>)
               (concat (map declared_callables body))"
      by (rule concat_map_eq) (rule top_funcs_declared)
    show ?case by (simp add: 1 2 new_class_info_def)
  next
    case (Compound body)
    show ?case
      unfolding all_classes.simps declared_classes.simps
      by (rule concat_map_eq) (rule Compound.IH)
  qed simp_all
  then show ?thesis .
qed

text \<open>
  C9, as stated: the extracted parameters are the declared parameter names, in order,
  minus the receiver names. This fails for \<^verbatim>\<open>def f(a, *, b)\<close>: the keyword-only
  parameter \<^verbatim>\<open>b\<close> is declared but not extracted.
\<close>

theorem visit_callable_keyword_only_counterexample:
  "map args (functions' (run_extractor (Module
      [FunctionDef ''f'' (Arguments [] [''a''] None [''b''] None) [Simple] 1 2])))
   \<noteq> [filter (\<lambda>p. p \<notin> set [''self'', ''cls''])
         (declared_parameters (Arguments [] [''a''] None [''b''] None))]"
  by (simp add: run_extractor_eq callable_info_def declared_parameters_def)

text \<open>
  C9, amended: the inventory of a tree has exactly one entry per function definition of
  the tree that lies outside every function, in source order: the definitions outside
  every class under \<^verbatim>\<open>functions\<close>, those of a class body under the
  \<^verbatim>\<open>methods\<close> of that class. An ordinary and an asynchronous definition give the
  same entry: the definition's name, docstring and line span, and as parameters the names
  of its ordinary (positional-or-keyword) parameters \<^verbatim>\<open>node.args.args\<close>, in order,
  without any name equal to \<^verbatim>\<open>self\<close> or \<^verbatim>\<open>cls\<close>; positional-only,
  keyword-only and starred parameters are not extracted. Neither \<^verbatim>\<open>self\<close> nor
  \<^verbatim>\<open>cls\<close> is among the parameters of any entry. The entries of the module and of a
  class have no parameter list.
\<close>

theorem extracted_parameters:
  "functions' (run_extractor (Module body))
     = map (\<lambda>(n, a, b, l, e).
              \<lparr>name = n, docstring = get_docstring b, line = l, end_line = e,
               args = filter (\<lambda>p. p \<noteq> ''self'' \<and> p \<noteq> ''cls'') (arguments_args a)\<rparr>)
           (concat (map declared_callables body))
   \<and> classes (run_extractor (Module body))
     = map (\<lambda>(n, b, l, e).
              \<lparr>name = n, docstring = get_docstring b, line = l, end_line = e,
               methods = map (\<lambda>(n, a, b, l, e).
                   \<lparr>name = n, docstring = get_docstring b, line = l, end_line = e,
                    args = filter (\<lambda>p. p \<noteq> ''self'' \<and> p \<noteq> ''cls'') (arguments_args a)\<rparr>)
                 (concat (map declared_callables b))\<rparr>)
           (concat (map declared_classes body))
   \<and> ''self'' \<notin> set (concat (map args (functions' (run_extractor (Module body)))))
   \<and> ''cls'' \<notin> set (concat (map args (functions' (run_extractor (Module body)))))
   \<and> ''self'' \<notin> set (concat (map args (concat (map methods
                        (classes (run_extractor (Module body)))))))
   \<and> ''cls'' \<notin> set (concat (map args (concat (map methods
                       (classes (run_extractor (Module body)))))))"
proof -
  let ?E = "run_extractor (Module body)"
  have f: "functions' ?E
     = map (\<lambda>(n, a, b, l, e).
              \<lparr>name = n, docstring = get_docstring b, line = l, end_line = e,
               args = filter (\<lambda>p. p \<noteq> ''self'' \<and> p \<noteq> ''cls'') (arguments_args a)\<rparr>)
           (concat (map declared_callables body))"
    unfolding run_extractor_eq entities.simps
    by (rule concat_map_eq) (rule top_funcs_declared)
  have c: "classes ?E
     = map (\<lambda>(n, b, l, e).
              \<lparr>name = n, docstring = get_docstring b, line = l, end_line = e,
               methods = map (\<lambda>(n, a, b, l, e).
                   \<lparr>name = n, docstring = get_docstring b, line = l, end_line = e,
                    args = filter (\<lambda>p. p \<noteq> ''self'' \<and> p \<noteq> ''cls'') (arguments_args a)\<rparr>)
                 (concat (map declared_callables b))\<rparr>)
           (concat (map declared_classes body))"
    unfolding run_extractor_eq entities.simps
    by (rule concat_map_eq) (rule all_classes_declared)
  have nf: "''self'' \<notin> set (concat (map args (functions' ?E)))"
    "''cls'' \<notin> set (concat (map args (functions' ?E)))"
    unfolding f by auto
  have nm: "''self'' \<notin> set (concat (map args (concat (map methods (classes ?E)))))"
    "''cls'' \<notin> set (concat (map args (concat (map methods (classes ?E)))))"
    unfolding c by auto
  from f c nf nm show ?thesis by (intro conjI)
qed

text \<open>A module with \<^verbatim>\<open>def f(cls, a, /, b, *c, d, **e)\<close> (with the positional-only
  parameters \<^verbatim>\<open>cls\<close> and \<^verbatim>\<open>a\<close>) on line 1 and, on lines 2 and 3, a class
  \<^verbatim>\<open>A\<close> with the method \<^verbatim>\<open>async def m(self, x, cls, y)\<close>: the parameters of
  \<^verbatim>\<open>f\<close> are \<^verbatim>\<open>["b"]\<close>, those of \<^verbatim>\<open>m\<close> are \<^verbatim>\<open>["x", "y"]\<close>.\<close>

theorem extracted_parameters_witness:
  "map (\<lambda>f. (name f, args f)) (functions' (run_extractor (Module
      [FunctionDef ''f'' (Arguments [''cls'', ''a''] [''b''] (Some ''c'') [''d''] (Some ''e''))
         [Simple] 1 1,
       ClassDef ''A'' [AsyncFunctionDef ''m'' (Arguments [] [''self'', ''x'', ''cls'', ''y'']
                          None [] None) [Simple] 3 3] 2 3])))
   = [(''f'', [''b''])]
   \<and> map (\<lambda>c. (name c, map (\<lambda>f. (name f, args f)) (methods c))) (classes (run_extractor (Module
      [FunctionDef ''f'' (Arguments [''cls'', ''a''] [''b''] (Some ''c'') [''d''] (Some ''e''))
         [Simple] 1 1,
       ClassDef ''A'' [AsyncFunctionDef ''m'' (Arguments [] [''self'', ''x'', ''cls'', ''y'']
                          None [] None) [Simple] 3 3] 2 3])))
   = [(''A'', [(''m'', [''x'', ''y''])])]"
  using extracted_parameters [of
      "[FunctionDef ''f'' (Arguments [''cls'', ''a''] [''b''] (Some ''c'') [''d''] (Some ''e''))
         [Simple] 1 1,
       ClassDef ''A'' [AsyncFunctionDef ''m'' (Arguments [] [''self'', ''x'', ''cls'', ''y'']
                          None [] None) [Simple] 3 3] 2 3]"]
  by simp

section \<open>Presence of documentation\<close>

text \<open>
  C6, as stated: a declaration has documentation exactly when its body starts with a bare
  string literal, the empty literal included. This fails for a function whose first
  statement is the empty string literal: the flattener reports it as undocumented and the
  coverage count does not count it.
\<close>

theorem empty_docstring_counterexample:
  "map Has_Docstring (entity_rows (run_extractor (Module
      [FunctionDef ''f'' (Arguments [] [] None [] None)
         [Expr (Constant_str ''''), Simple] 1 3]))) = [False]
   \<and> documented (count_file (run_extractor (Module
      [FunctionDef ''f'' (Arguments [] [] None [] None)
         [Expr (Constant_str ''''), Simple] 1 3]))) = 0"
  by (simp add: run_extractor_eq entity_rows_def row_of_def callable_info_def cleandoc_empty
      count_file_def check_def)

text \<open>
  C6, amended: for the module, for a class and for a callable, the flattener's
  \<^verbatim>\<open>Has Docstring\<close> and the coverage count take the declaration as documented exactly
  when the first statement of its body is a bare string literal whose text, cleaned by
  \<^verbatim>\<open>inspect.cleandoc\<close>, is not empty. Nothing else counts.
\<close>

theorem has_documentation_iff:
  "truthy (docstring (module (run_extractor (Module body)))) = doc_present body
   \<and> Has_Docstring (row_of ty (callable_info n a body l e)) = doc_present body
   \<and> Has_Docstring (row_of ty (new_class_info n body l e)) = doc_present body
   \<and> documented (check (callable_info n a body l e) st)
       = documented st + (if doc_present body then 1 else 0)
   \<and> documented (check (new_class_info n body l e) st)
       = documented st + (if doc_present body then 1 else 0)
   \<and> documented (check (module (run_extractor (Module body))) st)
       = documented st + (if doc_present body then 1 else 0)"
  by (simp add: run_extractor_eq row_of_def callable_info_def new_class_info_def check_def
      truthy_get_docstring Let_def)

section \<open>The synthesized block\<close>

lemma fold_append_lines:
  "fold (\<lambda>x acc. acc @ g x) xs acc = acc @ concat (map g xs)"
  by (induction xs arbitrary: acc) simp_all

lemma fold_append_rows:
  "fold (\<lambda>x acc. acc @ [g x]) xs acc = acc @ map g xs"
  by (induction xs arbitrary: acc) simp_all

text \<open>
  C8, as stated: the first line is the name with underscores replaced by spaces and the
  first letter capitalized, then a period; a callable gets an Args section; every line is
  indented at the indent level. For \<^verbatim>\<open>parseHTML\<close> at indent 4 the first line reads
  \<^verbatim>\<open>Parsehtml.\<close> (the other letters are lower-cased) and the second line is empty,
  not indented; for \<^verbatim>\<open>__init__\<close> with an empty parameter list the first letter
  stays lower-case and there is no Args section.
\<close>

theorem generate_google_docstring_counterexample:
  \<open>generate_google_docstring ''parseHTML'' None True 4 = ''    """Parsehtml.\<newline>\<newline>    """''
   \<and> take 17 (generate_google_docstring ''parseHTML'' None True 4)
       \<noteq> replicate 4 SP @ triple_quote @ humanized_name ''parseHTML'' @ ''.''
   \<and> generate_google_docstring ''__init__'' (Some []) False 0
       = ''"""  init  .\<newline>\<newline>\<newline>Returns:\<newline>    Description of the return value.\<newline>"""''\<close>
  by code_simp

text \<open>
  C8, amended: for every name, parameter list, class flag and indent, the block is these
  lines, each ended by a newline, and then the closing quotes at the indent: the opening
  quotes and the name with underscores replaced by spaces and \<^verbatim>\<open>str.capitalize\<close>
  applied (first character upper-cased, all others lower-cased), then a period; an empty
  line; when the parameter list is given and not empty, \<^verbatim>\<open>Args:\<close> and one line
  \<^verbatim>\<open><param>: Description of <param>.\<close> per parameter, four columns deeper; when the
  declaration is not a class, an empty line, \<^verbatim>\<open>Returns:\<close> and the placeholder line,
  four columns deeper. Every line that is not empty starts with the indent.
\<close>

theorem generate_google_docstring_shape:
  "generate_google_docstring nm as is_class indent =
     (let prefix = replicate (nat indent) SP in
      concat (map (\<lambda>l. l @ [NL])
        ([prefix @ triple_quote @ capitalize (replace_underscores nm) @ ''.'', []]
         @ (case as of
              Some (a # l) \<Rightarrow>
                (prefix @ ''Args:'')
                  # map (\<lambda>arg. prefix @ ''    '' @ arg @ '': Description of '' @ arg @ ''.'')
                        (a # l)
            | _ \<Rightarrow> [])
         @ (if is_class then []
            else [[], prefix @ ''Returns:'', prefix @ ''    Description of the return value.''])))
      @ prefix @ triple_quote)"
proof -
  have fold_eq: "fold (\<lambda>arg doc. doc @ p @ ''    '' @ arg @ '': Description of '' @ arg @ ''.'' @ [NL]) l d
      = d @ concat (map (\<lambda>l. l @ [NL]) (map (\<lambda>arg. p @ ''    '' @ arg @ '': Description of '' @ arg @ ''.'') l))"
    for p l d
    by (induction l arbitrary: d) simp_all
  show ?thesis
    unfolding generate_google_docstring_def Let_def fold_eq
    by (simp split: option.splits list.splits)
qed

text \<open>The specification's scenario: the block for \<^verbatim>\<open>add_numbers(a, b)\<close>.\<close>

lemma add_numbers_example:
  \<open>generate_google_docstring ''add_numbers'' (Some [''a'', ''b'']) False 4 =
     ''    """Add numbers.\<newline>\<newline>    Args:\<newline>        a: Description of a.\<newline>        b: Description of b.\<newline>\<newline>    Returns:\<newline>        Description of the return value.\<newline>    """''\<close>
  by code_simp

section \<open>The flattener's order\<close>

lemma entity_rows_eq:
  "entity_rows e =
     map (row_of ''Function'') (functions' e)
     @ concat (map (\<lambda>c. row_of ''Class'' c # map (row_of ''Method'') (methods c)) (classes e))"
  by (simp add: entity_rows_def Let_def fold_append_rows fold_append_lines)

text \<open>
  C5, as stated: the flattener emits the module-level callables and the types in source
  declaration order. For a file that declares class \<^verbatim>\<open>A\<close> (line 1) with method
  \<^verbatim>\<open>m\<close> (line 2) and then function \<^verbatim>\<open>f\<close> (line 4), the function comes first.
\<close>

theorem get_entity_list_order_counterexample:
  "map_sum id (map (\<lambda>r. (Function_Name r, Type r, Start_Line r)))
     (get_entity_list (\<lambda>s. if s = sample_order_src then Some sample_order_tree else None)
        [''x.py'' \<mapsto> File sample_order_src] ''x.py'')
   = Inr [(''f'', ''Function'', 4), (''A'', ''Class'', 1), (''m'', ''Method'', 2)]"
  by (simp add: get_entity_list_def analyze_file_def read_text_def sample_order_tree_def
      run_extractor_eq entity_rows_eq row_of_def callable_info_def new_class_info_def)

text \<open>
  C5, amended: for every file that can be read and parses, the flattener emits first the
  callables that belong to no class, in traversal (source) order, and then every class
  in traversal order, each class's own record immediately before the records of its
  methods, the methods in declaration order. The output is a function of the tree.
\<close>

theorem get_entity_list_order:
  assumes "fs file_path = Some (File source)" and "parse source = Some (Module body)"
  shows "get_entity_list parse fs file_path =
     Inr (map (row_of ''Function'') (concat (map top_funcs body))
          @ concat (map (\<lambda>c. row_of ''Class'' c # map (row_of ''Method'') (methods c))
                        (concat (map all_classes body))))"
  using assms
  by (simp add: get_entity_list_def analyze_file_def read_text_def run_extractor_eq
      entity_rows_eq)

text \<open>The sample file: the rows are \<^verbatim>\<open>f\<close>, \<^verbatim>\<open>A\<close>, \<^verbatim>\<open>m\<close>.\<close>

theorem get_entity_list_order_witness:
  "map_sum id (map Function_Name)
     (get_entity_list (\<lambda>s. if s = sample_order_src then Some sample_order_tree else None)
        ((\<lambda>p. None)(''x.py'' := Some (File sample_order_src))) ''x.py'')
   = Inr [''f'', ''A'', ''m'']"
proof -
  let ?parse = "\<lambda>s. if s = sample_order_src then Some sample_order_tree else None"
  let ?fs = "(\<lambda>p. None)(''x.py'' := Some (File sample_order_src))"
  have 1: "?fs ''x.py'' = Some (File sample_order_src)" by simp
  have 2: "?parse sample_order_src = Some (Module
     [ClassDef ''A'' [FunctionDef ''m'' (Arguments [] [''self''] None [] None) [Simple] 2 3] 1 3,
      FunctionDef ''f'' (Arguments [] [] None [] None) [Simple] 4 5])"
    by (simp add: sample_order_tree_def)
  show ?thesis
    unfolding get_entity_list_order [of ?fs "''x.py''" sample_order_src ?parse, OF 1 2]
    by (simp add: row_of_def callable_info_def new_class_info_def)
qed

section \<open>The coverage report\<close>

lemma fold_check:
  "fold check xs st =
     st\<lparr>total := total st + length xs,
        documented := documented st + length (filter truthy (map docstring xs))\<rparr>"
  by (induction xs arbitrary: st) (simp_all add: check_def Let_def)

lemma check_eq:
  "check x st =
     st\<lparr>total := total st + 1,
        documented := documented st + length (filter truthy [docstring x])\<rparr>"
  by (simp add: check_def Let_def)

lemma fold_check_classes:
  "fold (\<lambda>cls st. fold check (methods cls) (check cls st)) cs st =
     st\<lparr>total := total st
           + length (concat (map (\<lambda>c. docstring c # map docstring (methods c)) cs)),
        documented := documented st
           + length (filter truthy
               (concat (map (\<lambda>c. docstring c # map docstring (methods c)) cs)))\<rparr>"
  by (induction cs arbitrary: st) (simp_all add: fold_check check_eq)

lemma count_file_eq:
  "count_file e =
     \<lparr>total = length (all_docstrings e),
      documented = length (filter truthy (all_docstrings e))\<rparr>"
  apply (simp only: count_file_def Let_def)
  apply (simp only: fold_check_classes)
  apply (simp add: fold_check check_eq all_docstrings_def)
  done

lemma count_file_total_pos: "1 \<le> total (count_file e)"
  by (simp add: count_file_eq all_docstrings_def)

lemma count_file_documented_le: "documented (count_file e) \<le> total (count_file e)"
  by (simp add: count_file_eq)

lemma coverage_loop_Inr:
  "coverage_loop parse fs files r = Inr r' \<Longrightarrow>
     files_analyzed r' = files_analyzed r
     \<and> total_entities r' = total_entities r
         + sum_list (map (\<lambda>p. total (file_count parse fs p)) (filter (exists_path fs) files))
     \<and> documented_entities r' = documented_entities r
         + sum_list (map (\<lambda>p. documented (file_count parse fs p))
                         (filter (exists_path fs) files))
     \<and> details r' = (\<lambda>p. if p \<in> set files \<and> exists_path fs p
                          then Some (detail_of parse fs p) else details r p)
     \<and> (\<forall>p \<in> set files. exists_path fs p \<longrightarrow> (\<exists>e. analyze_file parse fs p = Inr e))"
proof (induction files arbitrary: r)
  case Nil
  then show ?case by simp
next
  case (Cons p files)
  show ?case
  proof (cases "exists_path fs p")
    case False
    with Cons.prems have "coverage_loop parse fs files r = Inr r'" by simp
    from Cons.IH [OF this] False show ?thesis by auto
  next
    case True
    with Cons.prems obtain e where e: "analyze_file parse fs p = Inr e"
      by (auto split: sum.splits)
    let ?r1 = "r\<lparr>total_entities := total_entities r + total (count_file e),
                  documented_entities := documented_entities r + documented (count_file e),
                  details := (details r)(p \<mapsto>
                     \<lparr>coverage = round2 (percent (documented (count_file e))
                                                  (total (count_file e))),
                      stats = count_file e\<rparr>)\<rparr>"
    have "coverage_loop parse fs files ?r1 = Inr r'"
      using Cons.prems True e by (simp add: Let_def)
    from Cons.IH [OF this] True e show ?thesis
      by (auto simp: file_count_def detail_of_def Let_def fun_eq_iff)
  qed
qed

lemma coverage_loop_error:
  "p \<in> set files \<Longrightarrow> exists_path fs p \<Longrightarrow> analyze_file parse fs p = Inl e
   \<Longrightarrow> \<exists>e'. coverage_loop parse fs files r = Inl e'"
proof (induction files arbitrary: r)
  case Nil
  then show ?case by simp
next
  case (Cons q files)
  then show ?case
    by (cases "q = p") (auto simp: Let_def split: sum.splits)
qed

lemma coverage_loop_Inl:
  "coverage_loop parse fs files r = Inl e \<Longrightarrow>
     \<exists>q \<in> set files. exists_path fs q \<and> analyze_file parse fs q = Inl e"
  by (induction files arbitrary: r) (auto simp: Let_def split: sum.splits if_splits)

lemma coverage_loop_skip:
  "\<not> exists_path fs p \<Longrightarrow>
   coverage_loop parse fs (xs @ p # ys) r = coverage_loop parse fs (xs @ ys) r"
  by (induction xs arbitrary: r) (auto simp: Let_def split: sum.splits)

lemma coverage_loop_files_analyzed:
  "coverage_loop parse fs files (r\<lparr>files_analyzed := n\<rparr>)
     = map_sum id (\<lambda>r'. r'\<lparr>files_analyzed := n\<rparr>) (coverage_loop parse fs files r)"
proof (induction files arbitrary: r)
  case Nil
  then show ?case by simp
next
  case (Cons p files)
  show ?case
  proof (cases "exists_path fs p")
    case False
    then show ?thesis using Cons.IH by simp
  next
    case True
    show ?thesis
    proof (cases "analyze_file parse fs p")
      case (Inl e)
      then show ?thesis using True by simp
    next
      case (Inr e)
      let ?r1 = "r\<lparr>total_entities := total_entities r + total (count_file e),
                    documented_entities := documented_entities r + documented (count_file e),
                    details := (details r)(p \<mapsto>
                       \<lparr>coverage = round2 (percent (documented (count_file e))
                                                    (total (count_file e))),
                        stats = count_file e\<rparr>)\<rparr>"
      have 1: "coverage_loop parse fs (p # files) (r\<lparr>files_analyzed := n\<rparr>)
               = coverage_loop parse fs files (?r1\<lparr>files_analyzed := n\<rparr>)"
        using True Inr by (cases r) (simp add: Let_def)
      have 2: "coverage_loop parse fs (p # files) r = coverage_loop parse fs files ?r1"
        using True Inr by (simp add: Let_def)
      show ?thesis unfolding 1 2 by (rule Cons.IH)
    qed
  qed
qed

lemma file_count_eq:
  "analyze_file parse fs p = Inr e \<Longrightarrow>
     file_count parse fs p =
       \<lparr>total = length (declarations_of parse fs p),
        documented = length (filter truthy (declarations_of parse fs p))\<rparr>"
  by (simp add: file_count_def declarations_of_def count_file_eq)

lemma sum_list_cong_set:
  "(\<And>x. x \<in> set xs \<Longrightarrow> f x = g x) \<Longrightarrow> sum_list (map f xs) = sum_list (map g xs)"
  by (induction xs) auto

lemma generate_coverage_report_forget:
  "map_sum id (\<lambda>r. r\<lparr>files_analyzed := 0\<rparr>) (generate_coverage_report parse fs files)
   = map_sum id
       (\<lambda>r. report_counts.extend r
               \<lparr>overall_coverage =
                  (if total_entities r > 0
                   then round2 (float_mul (float_div (of_nat (documented_entities r)) (of_nat (total_entities r))) 100)
                   else 0)\<rparr>)
       (coverage_loop parse fs files
          \<lparr>files_analyzed = 0, total_entities = 0, documented_entities = 0,
           details = Map.empty\<rparr>)"
proof -
  let ?z = "\<lparr>files_analyzed = 0, total_entities = 0, documented_entities = 0,
             details = Map.empty :: string \<rightharpoonup> file_detail\<rparr>"
  have r0: "\<lparr>files_analyzed = length files, total_entities = 0, documented_entities = 0,
             details = Map.empty :: string \<rightharpoonup> file_detail\<rparr>
            = ?z\<lparr>files_analyzed := length files\<rparr>" by simp
  have loop: "coverage_loop parse fs files (?z\<lparr>files_analyzed := length files\<rparr>)
      = map_sum id (\<lambda>r'. r'\<lparr>files_analyzed := length files\<rparr>) (coverage_loop parse fs files ?z)"
    by (rule coverage_loop_files_analyzed)
  show ?thesis
  proof (cases "coverage_loop parse fs files ?z")
    case (Inl e)
    then show ?thesis
      unfolding generate_coverage_report_def Let_def r0 loop by simp
  next
    case (Inr r)
    from coverage_loop_Inr [OF Inr] have "files_analyzed r = 0" by simp
    then show ?thesis
      unfolding generate_coverage_report_def Let_def r0 loop Inr
      by (cases r) (simp add: report_counts.extend_def)
  qed
qed

lemma round_half_even_error: "\<bar>of_int (round_half_even y) - y\<bar> \<le> 1 / 2"
proof -
  have "0 \<le> y - of_int \<lfloor>y\<rfloor>" "y - of_int \<lfloor>y\<rfloor> < 1" by linarith+
  then show ?thesis by (auto simp: round_half_even_def Let_def)
qed

lemma round_half_even_of_int: "round_half_even (of_int n) = n"
  by (simp add: round_half_even_def)

lemma round_half_even_nonneg: "0 \<le> y \<Longrightarrow> 0 \<le> round_half_even y"
  by (auto simp: round_half_even_def Let_def)

lemma round_half_even_zero_D: "round_half_even y = 0 \<Longrightarrow> y \<le> 1 / 2"
  using round_half_even_error [of y] by simp

lemma round_half_even_zero_I: "0 \<le> y \<Longrightarrow> y < 1 / 2 \<Longrightarrow> round_half_even y = 0"
proof -
  assume "0 \<le> y" "y < 1 / 2"
  then have "\<lfloor>y\<rfloor> = 0" by (simp add: floor_eq_iff)
  with \<open>y < 1 / 2\<close> show ?thesis by (simp add: round_half_even_def)
qed

lemma two_powi_pos: "0 < (power_int 2 e :: rat)"
  by (simp add: zero_less_power_int)

lemma binary_exponent_bounds:
  assumes "0 < x"
  shows "power_int 2 (binary_exponent x) \<le> x \<and> x < power_int 2 (binary_exponent x + 1)"
proof -
  obtain a b where q: "quotient_of x = (a, b)" by (cases "quotient_of x")
  have b: "0 < b" using q by (rule quotient_of_denom_pos)
  have x: "x = of_int a / of_int b" using q by (rule quotient_of_div)
  have a: "0 < a" using assms b x by (simp add: zero_less_divide_iff)
  let ?la = "bitlen a" and ?lb = "bitlen b"
  from bitlen_bounds [OF a] have a1: "2 ^ nat (?la - 1) \<le> a" and a2: "a < 2 ^ nat ?la" by simp_all
  from bitlen_bounds [OF b] have b1: "2 ^ nat (?lb - 1) \<le> b" and b2: "b < 2 ^ nat ?lb" by simp_all
  have la: "1 \<le> ?la" using a by (auto simp: bitlen_alt_def)
  have lb: "1 \<le> ?lb" using b by (auto simp: bitlen_alt_def)
  have ra1: "power_int 2 (?la - 1) \<le> (of_int a :: rat)"
  proof -
    have "(of_int (2 ^ nat (?la - 1)) :: rat) \<le> of_int a" using a1 by (simp only: of_int_le_iff)
    then show ?thesis using la by (simp add: power_int_def)
  qed
  have ra2: "(of_int a :: rat) < power_int 2 ?la"
  proof -
    have "(of_int a :: rat) < of_int (2 ^ nat ?la)" using a2 by (simp only: of_int_less_iff)
    then show ?thesis using la by (simp add: power_int_def)
  qed
  have rb1: "power_int 2 (?lb - 1) \<le> (of_int b :: rat)"
  proof -
    have "(of_int (2 ^ nat (?lb - 1)) :: rat) \<le> of_int b" using b1 by (simp only: of_int_le_iff)
    then show ?thesis using lb by (simp add: power_int_def)
  qed
  have rb2: "(of_int b :: rat) < power_int 2 ?lb"
  proof -
    have "(of_int b :: rat) < of_int (2 ^ nat ?lb)" using b2 by (simp only: of_int_less_iff)
    then show ?thesis using lb by (simp add: power_int_def)
  qed
  have bpos: "0 < (of_int b :: rat)" using b by simp
  let ?e0 = "?la - ?lb"
  have low: "power_int 2 (?e0 - 1) < x"
  proof -
    have "(power_int 2 (?la - 1) :: rat) / power_int 2 ?lb = power_int 2 ((?la - 1) - ?lb)"
      by (simp add: power_int_diff)
    moreover have "(?la - 1) - ?lb = ?e0 - 1" by simp
    ultimately have "power_int 2 (?e0 - 1) = (power_int 2 (?la - 1) :: rat) / power_int 2 ?lb"
      by simp
    also have "\<dots> \<le> of_int a / power_int 2 ?lb"
      using ra1 two_powi_pos [of ?lb] by (simp add: divide_right_mono)
    also have "\<dots> < of_int a / of_int b"
      using rb2 bpos a by (intro divide_strict_left_mono) (simp_all add: two_powi_pos)
    finally show ?thesis by (simp add: x)
  qed
  have up: "x < power_int 2 (?e0 + 1)"
  proof -
    have "x = of_int a / of_int b" by (rule x)
    also have "\<dots> < power_int 2 ?la / of_int b"
      using ra2 bpos by (simp add: divide_strict_right_mono)
    also have "\<dots> \<le> power_int 2 ?la / power_int 2 (?lb - 1)"
      using rb1 two_powi_pos [of "?lb - 1"] two_powi_pos [of ?la] bpos
      by (intro divide_left_mono) (simp_all add: mult_pos_pos)
    also have "\<dots> = power_int 2 (?la - (?lb - 1))"
      by (simp add: power_int_diff)
    also have "?la - (?lb - 1) = ?e0 + 1" by simp
    finally show ?thesis .
  qed
  show ?thesis
  proof (cases "power_int 2 ?e0 \<le> x")
    case True
    then have "binary_exponent x = ?e0" by (simp add: binary_exponent_def q)
    with True up show ?thesis by simp
  next
    case False
    then have "binary_exponent x = ?e0 - 1" by (simp add: binary_exponent_def q)
    with False low show ?thesis by simp
  qed
qed

lemma binary_exponent_eqI:
  assumes "power_int 2 e \<le> x" and "x < power_int 2 (e + 1)"
  shows "binary_exponent x = e"
proof -
  have pos: "0 < x" using assms(1) two_powi_pos [of e] by linarith
  let ?b = "binary_exponent x"
  from binary_exponent_bounds [OF pos]
  have 1: "power_int 2 ?b \<le> x" and 2: "x < power_int 2 (?b + 1)" by simp_all
  have "(power_int 2 ?b :: rat) < power_int 2 (e + 1)" using 1 assms(2) by linarith
  then have "?b < e + 1"
    by (metis not_le power_int_increasing one_le_numeral not_less)
  moreover have "(power_int 2 e :: rat) < power_int 2 (?b + 1)" using 2 assms(1) by linarith
  then have "e < ?b + 1"
    by (metis not_le power_int_increasing one_le_numeral not_less)
  ultimately show ?thesis by simp
qed

lemma to_float_zero: "to_float 0 = 0"
  by (simp add: to_float_def)

lemma to_float_error:
  assumes "power_int 2 (- 1022) \<le> x"
  shows "\<bar>to_float x - x\<bar> \<le> x / 2 ^ 53"
proof -
  have pos: "0 < x" using assms two_powi_pos [of "- 1022"] by linarith
  define e where "e = max (binary_exponent x) (- 1022)"
  define q :: rat where "q = power_int 2 (e - 52)"
  have qpos: "0 < q" by (simp add: q_def two_powi_pos)
  have le: "power_int 2 e \<le> x"
    using binary_exponent_bounds [OF pos] assms by (auto simp: e_def max_def)
  have tf: "to_float x = of_int (round_half_even (x / q)) * q"
    using pos by (simp add: to_float_def Let_def e_def q_def)
  have "to_float x - x = (of_int (round_half_even (x / q)) - x / q) * q"
    using qpos by (simp add: tf algebra_simps)
  then have "\<bar>to_float x - x\<bar> = \<bar>of_int (round_half_even (x / q)) - x / q\<bar> * q"
    using qpos by (simp add: abs_mult)
  also have "\<dots> \<le> (1 / 2) * q"
    using round_half_even_error [of "x / q"] qpos by (intro mult_right_mono) simp_all
  also have "\<dots> = power_int 2 e / 2 ^ 53"
    by (simp add: q_def power_int_diff)
  also have "\<dots> \<le> x / 2 ^ 53"
    using le by (simp add: divide_right_mono)
  finally show ?thesis .
qed

lemma to_float_exact:
  assumes "power_int 2 e \<le> x" and "x < power_int 2 (e + 1)" and "- 1022 \<le> e"
    and "x / power_int 2 (e - 52) = of_int n"
  shows "to_float x = x"
proof -
  have pos: "0 < x" using assms(1) two_powi_pos [of e] by linarith
  have be: "binary_exponent x = e" using assms(1,2) by (rule binary_exponent_eqI)
  have "to_float x = of_int (round_half_even (x / power_int 2 (e - 52))) * power_int 2 (e - 52)"
    using pos assms(3) by (simp add: to_float_def Let_def be max_def)
  also have "\<dots> = x"
    unfolding assms(4) round_half_even_of_int
    using assms(4) [symmetric] by simp
  finally show ?thesis .
qed

lemma round_half_even_eqI: "\<bar>y - of_int n\<bar> < 1 / 2 \<Longrightarrow> round_half_even y = n"
proof -
  assume a: "\<bar>y - of_int n\<bar> < 1 / 2"
  then have "\<lfloor>y\<rfloor> = n \<or> \<lfloor>y\<rfloor> = n - 1" by linarith
  then show ?thesis
  proof
    assume f: "\<lfloor>y\<rfloor> = n"
    have "y - of_int n < 1 / 2" using a by linarith
    then show ?thesis by (simp add: round_half_even_def Let_def f)
  next
    assume f: "\<lfloor>y\<rfloor> = n - 1"
    have "- (1 / 2) < y - of_int n" using a by linarith
    then have "1 / 2 < y - of_int (n - 1)" by simp
    then show ?thesis by (simp add: round_half_even_def Let_def f)
  qed
qed

lemma to_float_eqI:
  assumes "power_int 2 e \<le> x" "x < power_int 2 (e + 1)" "- 1022 \<le> e"
    and "\<bar>x / power_int 2 (e - 52) - of_int n\<bar> < 1 / 2"
  shows "to_float x = of_int n * power_int 2 (e - 52)"
proof -
  have pos: "0 < x" using assms(1) two_powi_pos [of e] by linarith
  have be: "binary_exponent x = e" using assms(1,2) by (rule binary_exponent_eqI)
  have r: "round_half_even (x / power_int 2 (e - 52)) = n"
    using assms(4) by (rule round_half_even_eqI)
  show ?thesis
    using pos assms(3) by (simp add: to_float_def Let_def be max_def r)
qed

lemma tiny_le: "1 / 2 ^ 60 \<le> x \<Longrightarrow> power_int 2 (- 1022) \<le> (x :: rat)"
proof -
  assume x: "1 / 2 ^ 60 \<le> x"
  have "(power_int 2 (- 1022) :: rat) \<le> power_int 2 (- 60)"
    by (intro power_int_increasing) simp_all
  also have "\<dots> = 1 / 2 ^ 60" by (simp add: power_int_minus_divide)
  finally show ?thesis using x by simp
qed

lemma to_float_nonneg: "0 \<le> x \<Longrightarrow> 0 \<le> to_float x"
  by (auto simp: to_float_def Let_def two_powi_pos less_imp_le
           intro!: mult_nonneg_nonneg round_half_even_nonneg divide_nonneg_nonneg)

lemma to_float_lower:
  assumes "1 / 2 ^ 60 \<le> x"
  shows "x * (1 - 1 / 2 ^ 53) \<le> to_float x"
proof -
  have "x - to_float x \<le> x / 2 ^ 53"
    using to_float_error [OF tiny_le [OF assms]] by (simp only: abs_le_iff) simp
  moreover have "x * (1 - 1 / 2 ^ 53) = x - x / 2 ^ 53" by (simp only: right_diff_distrib) simp
  ultimately show ?thesis by linarith
qed

lemma to_float_upper:
  assumes "1 / 2 ^ 60 \<le> x"
  shows "to_float x \<le> x * (1 + 1 / 2 ^ 53)"
proof -
  have "to_float x - x \<le> x / 2 ^ 53"
    using to_float_error [OF tiny_le [OF assms]] by (simp only: abs_le_iff)
  moreover have "x * (1 + 1 / 2 ^ 53) = x + x / 2 ^ 53" by (simp only: distrib_left) simp
  ultimately show ?thesis by linarith
qed

lemma round2_zero: "round2 0 = 0"
  by (simp add: round2_def round_half_even_def to_float_zero)

lemma round2_eq_0_D:
  assumes "round2 x = 0" and "0 \<le> x"
  shows "x * 100 \<le> 1 / 2"
proof -
  let ?k = "round_half_even (x * 100)"
  have k0: "0 \<le> ?k" using assms(2) by (intro round_half_even_nonneg) simp
  have "?k = 0"
  proof (rule ccontr)
    assume "?k \<noteq> 0"
    with k0 have "1 \<le> ?k" by simp
    then have "(1 :: rat) \<le> of_int ?k" by simp
    then have y: "(1 :: rat) / 100 \<le> of_int ?k / 100" by simp
    then have "1 / 2 ^ 60 \<le> (of_int ?k / 100 :: rat)" by simp
    from to_float_lower [OF this] assms(1)
    have "of_int ?k / 100 * (1 - 1 / 2 ^ 53) \<le> (0 :: rat)" by (simp add: round2_def)
    moreover have "0 < (of_int ?k / 100 :: rat) * (1 - 1 / 2 ^ 53)"
      using y by (intro mult_pos_pos) simp_all
    ultimately show False by simp
  qed
  then show ?thesis by (rule round_half_even_zero_D)
qed

lemma round2_zero_I:
  assumes "0 \<le> x" and "x * 100 < 1 / 2"
  shows "round2 x = 0"
proof -
  have "round_half_even (x * 100) = 0"
    using assms by (intro round_half_even_zero_I) simp_all
  then show ?thesis by (simp add: round2_def to_float_zero)
qed

lemma percent_lower:
  assumes "0 < d" and "0 < t" and "t < 2 ^ 51"
  shows "of_nat d / of_nat t * 100 * (1 - 1 / 2 ^ 53) * (1 - 1 / 2 ^ 53) \<le> percent d t"
proof -
  let ?r = "of_nat d / of_nat t :: rat"
  let ?c = "1 - 1 / 2 ^ 53 :: rat"
  have tpos: "0 < (of_nat t :: rat)" using assms(2) by simp
  have "(of_nat t :: rat) < of_nat (2 ^ 51)" using assms(3) by (simp only: of_nat_less_iff)
  then have t': "(of_nat t :: rat) < 2 ^ 51" by simp
  have "(1 :: rat) \<le> of_nat d" using assms(1) by simp
  then have le: "1 / of_nat t \<le> ?r" using tpos by (simp add: divide_right_mono)
  have lt: "(1 :: rat) / 2 ^ 51 < 1 / of_nat t"
    using t' tpos by (intro divide_strict_left_mono) simp_all
  from lt le have r: "1 / 2 ^ 51 < ?r" by (rule less_le_trans)
  have "(1 :: rat) / 2 ^ 60 \<le> 1 / 2 ^ 51" by simp
  with r have r60: "1 / 2 ^ 60 \<le> ?r" by linarith
  let ?a = "to_float ?r"
  have a: "?r * ?c \<le> ?a" using r60 by (rule to_float_lower)
  have "(1 / 2 ^ 51) * ?c \<le> ?r * ?c" using r by (intro mult_right_mono) simp_all
  moreover have "(1 :: rat) / 2 ^ 60 \<le> (1 / 2 ^ 51) * ?c" by simp
  ultimately have rc: "1 / 2 ^ 60 \<le> ?r * ?c" by linarith
  have a0: "0 \<le> ?a" by (intro to_float_nonneg) simp
  have "?r * ?c \<le> ?a * 100" using a a0 by linarith
  with rc have "1 / 2 ^ 60 \<le> ?a * 100" by (rule order_trans)
  from to_float_lower [OF this] have b: "?a * 100 * ?c \<le> to_float (?a * 100)" .
  have "?r * 100 * ?c * ?c = (?r * ?c) * (100 * ?c)" by simp
  also have "\<dots> \<le> ?a * (100 * ?c)" using a by (intro mult_right_mono) simp_all
  also have "\<dots> = ?a * 100 * ?c" by simp
  also have "\<dots> \<le> to_float (?a * 100)" by (rule b)
  finally show ?thesis
    using assms(2) by (simp add: percent_def float_mul_def float_div_def)
qed

lemma percent_nonneg: "0 \<le> percent d t"
  by (simp add: percent_def float_mul_def float_div_def to_float_nonneg)

lemma coverage_zero_bound:
  assumes "round2 (percent d t) = 0" and "0 < t" and "t < 2 ^ 51"
  shows "d * 20000 \<le> t"
proof (rule ccontr)
  assume "\<not> d * 20000 \<le> t"
  then have big: "t + 1 \<le> d * 20000" by simp
  then have dpos: "0 < d" by (cases d) simp_all
  let ?c = "1 - 1 / 2 ^ 53 :: rat"
  have tpos: "0 < (of_nat t :: rat)" using assms(2) by simp
  have "(of_nat t :: rat) < of_nat (2 ^ 51)" using assms(3) by (simp only: of_nat_less_iff)
  then have t': "(of_nat t :: rat) < 2 ^ 51" by simp
  from round2_eq_0_D [OF assms(1) percent_nonneg]
  have "percent d t * 100 \<le> 1 / 2" .
  with percent_lower [OF dpos assms(2,3)]
  have "of_nat d / of_nat t * 100 * ?c * ?c * 100 \<le> 1 / 2" by simp
  then have "of_nat d * 20000 * (?c * ?c) \<le> (of_nat t :: rat)"
    using tpos by (simp add: field_simps)
  moreover have "(of_nat (t + 1) :: rat) \<le> of_nat (d * 20000)"
    using big by (simp only: of_nat_le_iff)
  then have "(of_nat t + 1 :: rat) \<le> of_nat d * 20000" by simp
  then have "(of_nat t + 1) * (?c * ?c) \<le> of_nat d * 20000 * (?c * ?c)"
    by (intro mult_right_mono) simp_all
  ultimately have "(of_nat t + 1) * (?c * ?c) \<le> (of_nat t :: rat)" by simp
  moreover have "(of_nat t + 1) * (1 - 2 / 2 ^ 53) \<le> (of_nat t + 1) * (?c * ?c)"
    using tpos by (intro mult_left_mono) (simp_all add: field_simps)
  ultimately have "(of_nat t + 1) * (1 - 2 / 2 ^ 53) \<le> (of_nat t :: rat)" by simp
  then have "(2 ^ 52 :: rat) \<le> of_nat t + 1" by (simp add: field_simps)
  with t' show False by simp
qed

subsection \<open>The sample files\<close>

lemma cleandoc_Doc: "cleandoc ''Doc.'' = ''Doc.''"
  by code_simp

lemma srcs_distinct: "documented_src \<noteq> two_functions_src"
  "two_functions_src \<noteq> documented_src" "broken_src \<noteq> documented_src"
  "broken_src \<noteq> two_functions_src"
  by (simp_all add: documented_src_def two_functions_src_def broken_src_def)

lemma analyze_a: "analyze_file sample_parse sample_fs ''a.py'' = Inr (run_extractor documented_tree)"
  by (simp add: analyze_file_def read_text_def sample_fs_def sample_parse_def)

lemma analyze_b: "analyze_file sample_parse sample_fs ''b.py'' = Inr (run_extractor two_functions_tree)"
  by (simp add: analyze_file_def read_text_def sample_fs_def sample_parse_def srcs_distinct)

lemma analyze_bad: "analyze_file sample_parse sample_fs ''bad.py'' = Inl SyntaxError"
  by (simp add: analyze_file_def read_text_def sample_fs_def sample_parse_def srcs_distinct)

lemma analyze_pkg: "analyze_file sample_parse sample_fs ''pkg'' = Inl OSError"
  by (simp add: analyze_file_def read_text_def sample_fs_def)

lemma exists_sample:
  "exists_path sample_fs ''a.py''" "exists_path sample_fs ''b.py''"
  "exists_path sample_fs ''bad.py''" "exists_path sample_fs ''pkg''"
  "\<not> exists_path sample_fs ''missing.py''"
  by (simp_all add: exists_path_def sample_fs_def)

lemma decls_a: "all_docstrings (run_extractor documented_tree) = [Some ''Doc.'']"
  by (simp add: documented_tree_def run_extractor_eq all_docstrings_def cleandoc_Doc)

lemma decls_b: "all_docstrings (run_extractor two_functions_tree) = [None, None, None]"
  by (simp add: two_functions_tree_def run_extractor_eq all_docstrings_def callable_info_def)

lemma to_float_1: "to_float 1 = 1"
  by (rule to_float_exact [where e = 0 and n = "2 ^ 52"]) (simp_all add: power_int_minus_divide)

lemma to_float_quarter: "to_float (1 / 4) = 1 / 4"
  by (rule to_float_exact [where e = "- 2" and n = "2 ^ 52"])
     (simp_all add: power_int_minus_divide)

lemma to_float_25: "to_float 25 = 25"
  by (rule to_float_exact [where e = 4 and n = "25 * 2 ^ 48"])
     (simp_all add: power_int_minus_divide)

lemma to_float_100: "to_float 100 = 100"
  by (rule to_float_exact [where e = 6 and n = "100 * 2 ^ 46"])
     (simp_all add: power_int_minus_divide)

lemma round2_25: "round2 25 = 25"
  by (simp add: round2_def round_half_even_def to_float_25)

lemma round2_100: "round2 100 = 100"
  by (simp add: round2_def round_half_even_def to_float_100)

lemma coverage_1_of_4: "round2 (float_mul (float_div 1 4) 100) = 25"
  by (simp add: float_mul_def float_div_def to_float_quarter to_float_25 round2_25)

lemma coverage_1_of_1: "round2 (float_mul (float_div 1 1) 100) = 100"
  by (simp add: float_mul_def float_div_def to_float_1 to_float_100 round2_100)

lemma coverage_1_of_20001: "round2 (percent 1 20001) = 0"
proof -
  let ?u = "1 + 1 / 2 ^ 53 :: rat"
  have a: "to_float (1 / 20001) \<le> 1 / 20001 * ?u"
    by (rule to_float_upper) simp
  have a0: "1 / 20001 * (1 - 1 / 2 ^ 53) \<le> to_float (1 / 20001)"
    by (rule to_float_lower) simp
  have "1 / 2 ^ 60 \<le> to_float (1 / 20001) * 100" using a0 by simp
  from to_float_upper [OF this]
  have "to_float (to_float (1 / 20001) * 100) \<le> to_float (1 / 20001) * 100 * ?u" .
  also have "\<dots> \<le> 1 / 20001 * ?u * 100 * ?u" using a by simp
  finally have "percent 1 20001 \<le> 1 / 20001 * ?u * 100 * ?u"
    by (simp add: percent_def float_mul_def float_div_def)
  then have "percent 1 20001 * 100 < 1 / 2" by simp
  with percent_nonneg show ?thesis by (intro round2_zero_I)
qed

text \<open>23 of 160 declarations: the quotient is rounded down, the product is the float
  14.374999999999998 and the coverage is the float 14.37; the exact ratio 14.375 is a tie
  and would be rounded to 14.38.\<close>

lemma float_div_23_160: "float_div 23 160 = 5179139571476070 / 2 ^ 55"
  unfolding float_div_def
  using to_float_eqI [where e = "- 3" and n = 5179139571476070 and x = "23 / 160"]
  by (simp add: power_int_minus_divide)

lemma float_mul_23_160: "float_mul (5179139571476070 / 2 ^ 55) 100 = 8092405580431359 / 2 ^ 49"
  unfolding float_mul_def
  using to_float_eqI [where e = 3 and n = 8092405580431359
      and x = "5179139571476070 / 2 ^ 55 * 100"]
  by (simp add: power_int_minus_divide)

lemma coverage_23_of_160:
  "round2 (percent 23 160) = 8089590830664253 / 2 ^ 49
   \<and> round2 (percent 23 160) < 1437 / 100 \<and> round_half_even (23 / 160 * 100 * 100) = 1438"
proof -
  have "percent 23 160 = float_mul (float_div 23 160) 100"
    by (simp add: percent_def)
  then have p: "percent 23 160 = 8092405580431359 / 2 ^ 49"
    by (simp only: float_div_23_160 float_mul_23_160)
  have k: "round_half_even (8092405580431359 / 2 ^ 49 * 100) = 1437"
    by (rule round_half_even_eqI) simp
  have t: "to_float (of_int 1437 / 100) = 8089590830664253 / 2 ^ 49"
    using to_float_eqI [where e = 3 and n = 8089590830664253 and x = "1437 / 100"]
    by (simp add: power_int_minus_divide)
  have "round2 (percent 23 160) = 8089590830664253 / 2 ^ 49"
    unfolding round2_def by (simp only: p k t)
  moreover have "round_half_even (23 / 160 * 100 * 100) = 1438"
  proof -
    have "\<lfloor>2875 / 2 :: rat\<rfloor> = 1437" by (simp add: floor_eq_iff)
    then show ?thesis by (simp add: round_half_even_def Let_def)
  qed
  ultimately show ?thesis by simp
qed

text \<open>1 of 20000 declarations: the product is a float just above 0.005 and the coverage
  is the float 0.01.\<close>

lemma float_div_1_20000: "float_div 1 20000 = 7378697629483821 / 2 ^ 67"
  unfolding float_div_def
  using to_float_eqI [where e = "- 15" and n = 7378697629483821 and x = "1 / 20000"]
  by (simp add: power_int_minus_divide)

lemma float_mul_1_20000: "float_mul (7378697629483821 / 2 ^ 67) 100 = 5764607523034235 / 2 ^ 60"
  unfolding float_mul_def
  using to_float_eqI [where e = "- 8" and n = 5764607523034235
      and x = "7378697629483821 / 2 ^ 67 * 100"]
  by (simp add: power_int_minus_divide)

lemma coverage_1_of_20000:
  "round2 (percent 1 20000) = 5764607523034235 / 2 ^ 59
   \<and> round2 (percent 1 20000) \<noteq> 0"
proof -
  have "percent 1 20000 = float_mul (float_div 1 20000) 100"
    by (simp add: percent_def)
  then have p: "percent 1 20000 = 5764607523034235 / 2 ^ 60"
    by (simp only: float_div_1_20000 float_mul_1_20000)
  have k: "round_half_even (5764607523034235 / 2 ^ 60 * 100) = 1"
    by (rule round_half_even_eqI) simp
  have t: "to_float (of_int 1 / 100) = 5764607523034235 / 2 ^ 59"
    using to_float_eqI [where e = "- 7" and n = 5764607523034235 and x = "1 / 100"]
    by (simp add: power_int_minus_divide)
  have "round2 (percent 1 20000) = 5764607523034235 / 2 ^ 59"
    unfolding round2_def by (simp only: p k t)
  then show ?thesis by simp
qed

lemma coverage_0_of: "round2 (float_mul (float_div 0 x) 100) = 0"
  by (simp add: float_mul_def float_div_def to_float_zero round2_zero)

lemma many_functions_decls:
  "all_docstrings (run_extractor (many_functions_tree n)) = Some ''Doc.'' # replicate n None"
proof -
  have "concat (map top_funcs (map (\<lambda>i. FunctionDef ''f'' (Arguments [] [] None [] None)
                                       [Simple] (i + 2) (i + 2)) xs))
        = map (\<lambda>i. callable_info ''f'' (Arguments [] [] None [] None) [Simple] (i + 2) (i + 2)) xs"
    for xs by (induction xs) simp_all
  moreover have "concat (map all_classes (map (\<lambda>i. FunctionDef ''f'' (Arguments [] [] None [] None)
                                       [Simple] (i + 2) (i + 2)) xs)) = []"
    for xs by (induction xs) simp_all
  ultimately show ?thesis
    by (simp add: many_functions_tree_def run_extractor_eq all_docstrings_def cleandoc_Doc
        callable_info_def comp_def map_replicate_const)
qed

subsection \<open>Counts and ratios\<close>

text \<open>
  C2: when the report is produced, every input file that exists has an entry whose
  \<^verbatim>\<open>total\<close> is the number of declarations of its inventory (module, classes,
  methods, functions), whose \<^verbatim>\<open>documented\<close> is the number of those with
  documentation, and whose coverage is \<^verbatim>\<open>round(documented / total * 100, 2)\<close>, or 0
  when the total is 0; the report's totals are the sums of the per-file counts over the
  input list, and the overall coverage is the same ratio of the summed counts, 0 when the
  summed total is 0.
\<close>

theorem generate_coverage_report_counts:
  assumes "generate_coverage_report parse fs files = Inr report"
  shows "(\<forall>p \<in> set files. exists_path fs p \<longrightarrow>
            (\<exists>entities. analyze_file parse fs p = Inr entities
               \<and> details report p = Some
                   \<lparr>coverage =
                      (if length (all_docstrings entities) = 0 then 0
                       else round2 (float_mul (float_div (of_nat (length (filter truthy (all_docstrings entities)))) (of_nat (length (all_docstrings entities)))) 100)),
                    stats = \<lparr>total = length (all_docstrings entities),
                             documented = length (filter truthy (all_docstrings entities))\<rparr>\<rparr>))
         \<and> total_entities report
             = sum_list (map (\<lambda>p. length (declarations_of parse fs p))
                             (filter (exists_path fs) files))
         \<and> documented_entities report
             = sum_list (map (\<lambda>p. length (filter truthy (declarations_of parse fs p)))
                             (filter (exists_path fs) files))
         \<and> overall_coverage report
             = (if total_entities report = 0 then 0
                else round2 (float_mul (float_div (of_nat (documented_entities report)) (of_nat (total_entities report))) 100))"
proof -
  let ?r0 = "\<lparr>files_analyzed = length files, total_entities = 0,
              documented_entities = 0, details = Map.empty\<rparr>"
  from assms obtain r where loop: "coverage_loop parse fs files ?r0 = Inr r"
    and report: "report = report_counts.extend r
                    \<lparr>overall_coverage =
                       (if total_entities r > 0
                        then round2 (float_mul (float_div (of_nat (documented_entities r)) (of_nat (total_entities r))) 100)
                        else 0)\<rparr>"
    by (auto simp: generate_coverage_report_def Let_def split: sum.splits)
  note L = coverage_loop_Inr [OF loop]
  have ok: "\<forall>p \<in> set files. exists_path fs p \<longrightarrow> (\<exists>e. analyze_file parse fs p = Inr e)"
    using L by blast
  have fields: "total_entities report = total_entities r"
    "documented_entities report = documented_entities r"
    "details report = details r"
    "overall_coverage report = (if total_entities r > 0
                        then round2 (float_mul (float_div (of_nat (documented_entities r)) (of_nat (total_entities r))) 100)
                        else 0)"
    by (simp_all add: report report_counts.extend_def)
  have tot: "total_entities report
             = sum_list (map (\<lambda>p. length (declarations_of parse fs p))
                             (filter (exists_path fs) files))"
  proof -
    have "sum_list (map (\<lambda>p. total (file_count parse fs p)) (filter (exists_path fs) files))
          = sum_list (map (\<lambda>p. length (declarations_of parse fs p))
                          (filter (exists_path fs) files))"
      using ok by (intro sum_list_cong_set) (auto simp: file_count_eq)
    then show ?thesis using L by (simp add: fields)
  qed
  have doc: "documented_entities report
             = sum_list (map (\<lambda>p. length (filter truthy (declarations_of parse fs p)))
                             (filter (exists_path fs) files))"
  proof -
    have "sum_list (map (\<lambda>p. documented (file_count parse fs p))
                        (filter (exists_path fs) files))
          = sum_list (map (\<lambda>p. length (filter truthy (declarations_of parse fs p)))
                          (filter (exists_path fs) files))"
      using ok by (intro sum_list_cong_set) (auto simp: file_count_eq)
    then show ?thesis using L by (simp add: fields)
  qed
  have per_file: "\<forall>p \<in> set files. exists_path fs p \<longrightarrow>
            (\<exists>entities. analyze_file parse fs p = Inr entities
               \<and> details report p = Some
                   \<lparr>coverage =
                      (if length (all_docstrings entities) = 0 then 0
                       else round2 (float_mul (float_div (of_nat (length (filter truthy (all_docstrings entities)))) (of_nat (length (all_docstrings entities)))) 100)),
                    stats = \<lparr>total = length (all_docstrings entities),
                             documented = length (filter truthy (all_docstrings entities))\<rparr>\<rparr>)"
  proof (intro ballI impI)
    fix p assume p: "p \<in> set files" "exists_path fs p"
    then obtain e where e: "analyze_file parse fs p = Inr e" using ok by blast
    have "details report p = Some (detail_of parse fs p)"
      using L p by (simp add: fields)
    then show "\<exists>entities. analyze_file parse fs p = Inr entities
               \<and> details report p = Some
                   \<lparr>coverage =
                      (if length (all_docstrings entities) = 0 then 0
                       else round2 (float_mul (float_div (of_nat (length (filter truthy (all_docstrings entities)))) (of_nat (length (all_docstrings entities)))) 100)),
                    stats = \<lparr>total = length (all_docstrings entities),
                             documented = length (filter truthy (all_docstrings entities))\<rparr>\<rparr>"
      using e
      by (simp add: detail_of_def file_count_def count_file_eq percent_def Let_def
          all_docstrings_def)
  qed
  have ov: "overall_coverage report
             = (if total_entities report = 0 then 0
                else round2 (float_mul (float_div (of_nat (documented_entities report)) (of_nat (total_entities report))) 100))"
    by (simp add: fields)
  from per_file tot doc ov show ?thesis by (intro conjI)
qed

text \<open>Two files with 1 of 1 and 0 of 3 declarations documented: the per-file coverages
  are 100 and 0, the overall coverage is 25, not their mean 50.\<close>

theorem generate_coverage_report_counts_witness:
  "\<exists>report. generate_coverage_report sample_parse sample_fs [''a.py'', ''b.py''] = Inr report
     \<and> map_option coverage (details report ''a.py'') = Some 100
     \<and> map_option coverage (details report ''b.py'') = Some 0
     \<and> total_entities report = 4 \<and> documented_entities report = 1
     \<and> overall_coverage report = 25
     \<and> overall_coverage report \<noteq> (100 + 0) / 2"
proof -
  have "\<exists>report. generate_coverage_report sample_parse sample_fs [''a.py'', ''b.py''] = Inr report"
    by (simp add: generate_coverage_report_def exists_sample analyze_a analyze_b Let_def)
  then obtain report
    where r: "generate_coverage_report sample_parse sample_fs [''a.py'', ''b.py''] = Inr report"
    by blast
  note T = generate_coverage_report_counts [OF r]
  have da: "declarations_of sample_parse sample_fs ''a.py'' = [Some ''Doc.'']"
    and db: "declarations_of sample_parse sample_fs ''b.py'' = [None, None, None]"
    by (simp_all add: declarations_of_def analyze_a analyze_b decls_a decls_b)
  have tot: "total_entities report = 4" and doc: "documented_entities report = 1"
    using T by (simp_all add: exists_sample da db)
  have ov: "overall_coverage report = 25"
    using T by (simp add: tot doc coverage_1_of_4)
  have a: "map_option coverage (details report ''a.py'') = Some 100"
    using T by (auto simp: exists_sample analyze_a decls_a coverage_1_of_1)
  have b: "map_option coverage (details report ''b.py'') = Some 0"
    using T by (auto simp: exists_sample analyze_b decls_b coverage_0_of)
  show ?thesis using r tot doc ov a b by simp
qed

subsection \<open>Paths that do not exist\<close>

text \<open>
  C3, as stated: a path that does not exist or cannot be read is skipped without an
  error and is not counted in \<^verbatim>\<open>files_analyzed\<close>. A path that exists and cannot be
  read (a directory) makes the run raise \<^verbatim>\<open>OSError\<close>; and for the single missing
  path \<^verbatim>\<open>files_analyzed\<close> is 1.
\<close>

theorem missing_path_counterexample:
  "generate_coverage_report sample_parse sample_fs [''a.py'', ''pkg''] = Inl OSError
   \<and> map_sum id files_analyzed
        (generate_coverage_report sample_parse sample_fs [''missing.py'']) = Inr 1"
  by (simp add: generate_coverage_report_def exists_sample analyze_a analyze_pkg Let_def
      report_counts.extend_def)

text \<open>
  C3, amended: a path that does not exist is skipped silently. Apart from
  \<^verbatim>\<open>files_analyzed\<close>, the run over a list with the path gives what the run over the
  list without it gives, the same error or the same totals, per-file details and overall
  coverage; the report has no entry for the path; and the run over the path alone raises
  nothing and reports no declarations.
\<close>

theorem missing_path_skipped:
  assumes "fs p = None"
  shows "map_sum id (\<lambda>r. r\<lparr>files_analyzed := 0\<rparr>)
           (generate_coverage_report parse fs (xs @ p # ys))
         = map_sum id (\<lambda>r. r\<lparr>files_analyzed := 0\<rparr>)
             (generate_coverage_report parse fs (xs @ ys))
       \<and> (\<forall>r. generate_coverage_report parse fs (xs @ p # ys) = Inr r \<longrightarrow> details r p = None)
       \<and> (\<exists>r. generate_coverage_report parse fs [p] = Inr r
              \<and> total_entities r = 0 \<and> documented_entities r = 0
              \<and> details r = Map.empty \<and> overall_coverage r = 0)"
proof -
  have ne: "\<not> exists_path fs p" using assms by (simp add: exists_path_def)
  have 1: "map_sum id (\<lambda>r. r\<lparr>files_analyzed := 0\<rparr>)
           (generate_coverage_report parse fs (xs @ p # ys))
         = map_sum id (\<lambda>r. r\<lparr>files_analyzed := 0\<rparr>)
             (generate_coverage_report parse fs (xs @ ys))"
    unfolding generate_coverage_report_forget coverage_loop_skip [OF ne] ..
  have 2: "details r p = None" if "generate_coverage_report parse fs (xs @ p # ys) = Inr r" for r
  proof -
    let ?r0 = "\<lparr>files_analyzed = length (xs @ p # ys), total_entities = 0,
                documented_entities = 0, details = Map.empty :: string \<rightharpoonup> file_detail\<rparr>"
    from that obtain r' where loop: "coverage_loop parse fs (xs @ p # ys) ?r0 = Inr r'"
      and det: "details r = details r'"
      by (auto simp: generate_coverage_report_def Let_def report_counts.extend_def
               split: sum.splits)
    from coverage_loop_Inr [OF loop] ne show ?thesis by (simp add: det)
  qed
  have 3: "\<exists>r. generate_coverage_report parse fs [p] = Inr r
              \<and> total_entities r = 0 \<and> documented_entities r = 0
              \<and> details r = Map.empty \<and> overall_coverage r = 0"
    using ne by (simp add: generate_coverage_report_def report_counts.extend_def)
  from 1 2 3 show ?thesis by blast
qed

text \<open>A missing path between two files.\<close>

theorem missing_path_skipped_witness:
  "sample_fs ''missing.py'' = None
   \<and> map_sum id (\<lambda>r. r\<lparr>files_analyzed := 0\<rparr>)
        (generate_coverage_report sample_parse sample_fs [''a.py'', ''missing.py'', ''b.py''])
     = map_sum id (\<lambda>r. r\<lparr>files_analyzed := 0\<rparr>)
        (generate_coverage_report sample_parse sample_fs [''a.py'', ''b.py''])
   \<and> (\<exists>r. generate_coverage_report sample_parse sample_fs [''missing.py''] = Inr r
          \<and> details r = Map.empty)"
proof -
  have h: "sample_fs ''missing.py'' = None" by (simp add: sample_fs_def)
  from missing_path_skipped
         [where fs = sample_fs and p = "''missing.py''" and xs = "[''a.py'']"
            and ys = "[''b.py'']" and parse = sample_parse, OF h]
  show ?thesis using h by auto
qed

subsection \<open>Files that do not parse\<close>

text \<open>
  C4, as stated: a file that does not parse is skipped and the batch report covers the
  remaining files. With a good file before and after the bad one, the run raises
  \<^verbatim>\<open>SyntaxError\<close> and produces no report.
\<close>

theorem parse_failure_counterexample:
  "generate_coverage_report sample_parse sample_fs [''a.py'', ''bad.py'', ''b.py'']
     = Inl SyntaxError"
  by (simp add: generate_coverage_report_def exists_sample analyze_a analyze_bad Let_def)

text \<open>
  C4, amended: when a file of the input list can be read and does not parse, analysing it
  alone raises \<^verbatim>\<open>SyntaxError\<close>, and the coverage run over the list raises as well:
  no report is produced. The error raised is \<^verbatim>\<open>SyntaxError\<close> when no path of the list
  is unreadable.
\<close>

theorem parse_failure_aborts_batch:
  assumes "file_path \<in> set files" and "fs file_path = Some (File source)"
    and "parse source = None"
  shows "analyze_file parse fs file_path = Inl SyntaxError
         \<and> get_entity_list parse fs file_path = Inl SyntaxError
         \<and> (\<exists>e. generate_coverage_report parse fs files = Inl e)
         \<and> ((\<forall>q \<in> set files. fs q \<noteq> Some Unreadable)
              \<longrightarrow> generate_coverage_report parse fs files = Inl SyntaxError)"
proof -
  have a: "analyze_file parse fs file_path = Inl SyntaxError"
    using assms by (simp add: analyze_file_def read_text_def)
  have ex: "exists_path fs file_path" using assms(2) by (simp add: exists_path_def)
  let ?r0 = "\<lparr>files_analyzed = length files, total_entities = 0,
              documented_entities = 0, details = Map.empty\<rparr>"
  from coverage_loop_error [OF assms(1) ex a]
  obtain e' where loop: "coverage_loop parse fs files ?r0 = Inl e'" by blast
  then have g: "generate_coverage_report parse fs files = Inl e'"
    by (simp add: generate_coverage_report_def)
  have "e' = SyntaxError" if "\<forall>q \<in> set files. fs q \<noteq> Some Unreadable"
  proof -
    from coverage_loop_Inl [OF loop] obtain q where q: "q \<in> set files" "exists_path fs q"
      "analyze_file parse fs q = Inl e'" by blast
    with that show ?thesis
      by (auto simp: analyze_file_def read_text_def exists_path_def
               split: option.splits fnode.splits sum.splits)
  qed
  then show ?thesis using a g by (auto simp: get_entity_list_def)
qed

text \<open>The run over a good file and the file that does not parse.\<close>

theorem parse_failure_aborts_batch_witness:
  "''bad.py'' \<in> set [''a.py'', ''bad.py''] \<and> sample_fs ''bad.py'' = Some (File broken_src)
   \<and> sample_parse broken_src = None
   \<and> analyze_file sample_parse sample_fs ''bad.py'' = Inl SyntaxError
   \<and> generate_coverage_report sample_parse sample_fs [''a.py'', ''bad.py''] = Inl SyntaxError"
proof -
  have 1: "''bad.py'' \<in> set [''a.py'', ''bad.py'']" by simp
  have 2: "sample_fs ''bad.py'' = Some (File broken_src)" by (simp add: sample_fs_def)
  have 3: "sample_parse broken_src = None" by (simp add: sample_parse_def srcs_distinct)
  have 4: "\<forall>q \<in> set [''a.py'', ''bad.py'']. sample_fs q \<noteq> Some Unreadable"
    by (simp add: sample_fs_def)
  from parse_failure_aborts_batch
         [where file_path = "''bad.py''" and files = "[''a.py'', ''bad.py'']"
            and fs = sample_fs and source = broken_src and parse = sample_parse, OF 1 2 3] 4
  show ?thesis using 1 2 3 by blast
qed

subsection \<open>The module is always counted\<close>

text \<open>
  C10, as stated: a per-file coverage of 0.0 can only arise from zero documented
  declarations. A module with a docstring and 20000 undocumented functions has 1 of 20001
  declarations documented, and its coverage, 0.004999..., is rounded to 0.0.
\<close>

theorem rounded_to_zero_counterexample:
  "map_sum id (\<lambda>report. map_option (\<lambda>d. (coverage d, total (stats d), documented (stats d)))
                          (details report ''big.py''))
     (generate_coverage_report
        (\<lambda>s. if s = many_functions_src 20000 then Some (many_functions_tree 20000) else None)
        [''big.py'' \<mapsto> File (many_functions_src 20000)] [''big.py''])
   = Inr (Some (0, 20001, 1))"
proof -
  have "round2 (percent (Suc 0) 20001) = 0"
    using coverage_1_of_20001 by simp
  then show ?thesis
    by (simp add: generate_coverage_report_def exists_path_def analyze_file_def read_text_def
        Let_def count_file_eq many_functions_decls report_counts.extend_def)
qed

text \<open>
  C10, amended: in a report that is produced, every per-file entry counts at least one
  declaration (the module), its coverage is the rounded ratio and never comes from the
  guard for a total of 0; zero documented declarations give coverage 0; for a file with
  fewer than \<open>2 ^ 51\<close> declarations coverage 0 means that the documented declarations
  are at most one in 20000, so for a file with fewer than 20000 declarations coverage 0
  arises exactly from zero documented declarations.
\<close>

theorem per_file_total_positive:
  assumes "generate_coverage_report parse fs files = Inr report"
    and "details report p = Some d"
  shows "1 \<le> total (stats d)
         \<and> documented (stats d) \<le> total (stats d)
         \<and> coverage d = round2 (float_mul (float_div (of_nat (documented (stats d))) (of_nat (total (stats d)))) 100)
         \<and> (documented (stats d) = 0 \<longrightarrow> coverage d = 0)
         \<and> (total (stats d) < 2 ^ 51 \<longrightarrow> coverage d = 0
              \<longrightarrow> documented (stats d) * 20000 \<le> total (stats d))
         \<and> (total (stats d) < 20000 \<longrightarrow> (coverage d = 0 \<longleftrightarrow> documented (stats d) = 0))"
proof -
  let ?r0 = "\<lparr>files_analyzed = length files, total_entities = 0,
              documented_entities = 0, details = Map.empty\<rparr>"
  from assms(1) obtain r where loop: "coverage_loop parse fs files ?r0 = Inr r"
    and det: "details report = details r"
    by (auto simp: generate_coverage_report_def Let_def report_counts.extend_def
             split: sum.splits)
  note L = coverage_loop_Inr [OF loop]
  from L have dr: "details r = (\<lambda>p. if p \<in> set files \<and> exists_path fs p
                          then Some (detail_of parse fs p) else None)"
    by (simp cong: if_cong)
  with assms(2) det have p: "p \<in> set files" "exists_path fs p" and d: "d = detail_of parse fs p"
    by (auto split: if_splits)
  from L p obtain e where e: "analyze_file parse fs p = Inr e" by blast
  let ?t = "total (count_file e)" and ?d = "documented (count_file e)"
  have st: "stats d = count_file e" and cov: "coverage d = round2 (percent ?d ?t)"
    using d e by (simp_all add: detail_of_def file_count_def Let_def)
  have t1: "1 \<le> ?t" by (rule count_file_total_pos)
  have dt: "?d \<le> ?t" by (rule count_file_documented_le)
  have cov': "coverage d = round2 (float_mul (float_div (of_nat ?d) (of_nat ?t)) 100)"
    using t1 by (simp add: cov percent_def)
  have z: "?d = 0 \<Longrightarrow> coverage d = 0" by (simp add: cov' coverage_0_of)
  have big: "?d * 20000 \<le> ?t" if "coverage d = 0" "?t < 2 ^ 51"
    using that t1 by (intro coverage_zero_bound) (simp_all add: cov)
  have small: "coverage d = 0 \<longleftrightarrow> ?d = 0" if "?t < 20000"
  proof -
    have "?t < 2 ^ 51" using that by simp
    then show ?thesis using that big z by fastforce
  qed
  show ?thesis using t1 dt cov' z big small by (simp add: st)
qed

text \<open>The file with two undocumented functions: 3 declarations, none documented,
  coverage 0.\<close>

theorem per_file_total_positive_witness:
  "\<exists>report d. generate_coverage_report sample_parse sample_fs [''a.py'', ''b.py''] = Inr report
     \<and> details report ''b.py'' = Some d
     \<and> total (stats d) = 3 \<and> documented (stats d) = 0 \<and> coverage d = 0"
proof -
  have "\<exists>report d. generate_coverage_report sample_parse sample_fs [''a.py'', ''b.py''] = Inr report
     \<and> details report ''b.py'' = Some d \<and> total (stats d) = 3 \<and> documented (stats d) = 0"
    by (simp add: generate_coverage_report_def exists_sample analyze_a analyze_b Let_def
        report_counts.extend_def count_file_eq decls_a decls_b)
  then obtain report d
    where r: "generate_coverage_report sample_parse sample_fs [''a.py'', ''b.py''] = Inr report"
      and d: "details report ''b.py'' = Some d"
      and s: "total (stats d) = 3" "documented (stats d) = 0"
    by blast
  from per_file_total_positive [OF r d] s have "coverage d = 0" by blast
  with r d s show ?thesis by blast
qed

section \<open>The inserter\<close>

declare find_colon.simps [simp del]

lemma find_colon_ge: "j \<le> find_colon lines j"
proof (induction lines j rule: find_colon.induct)
  case (1 lines j)
  show ?case
  proof (cases "j < length lines \<and> CHR '':'' \<notin> set (lines ! j)")
    case True
    with 1 show ?thesis by (subst find_colon.simps) auto
  next
    case False
    then show ?thesis by (subst find_colon.simps) auto
  qed
qed

lemma find_colon_stop:
  "find_colon lines j < length lines \<Longrightarrow> CHR '':'' \<in> set (lines ! find_colon lines j)"
proof (induction lines j rule: find_colon.induct)
  case (1 lines j)
  show ?case
  proof (cases "j < length lines \<and> CHR '':'' \<notin> set (lines ! j)")
    case True
    then have eq: "find_colon lines j = find_colon lines (j + 1)"
      by (subst find_colon.simps) simp
    with 1 True show ?thesis by simp
  next
    case False
    then have eq: "find_colon lines j = j" by (subst find_colon.simps) auto
    with 1 False show ?thesis by auto
  qed
qed

lemma find_colon_first:
  "j \<le> m \<Longrightarrow> m < find_colon lines j \<Longrightarrow> m < length lines \<and> CHR '':'' \<notin> set (lines ! m)"
proof (induction lines j rule: find_colon.induct)
  case (1 lines j)
  show ?case
  proof (cases "j < length lines \<and> CHR '':'' \<notin> set (lines ! j)")
    case True
    then have eq: "find_colon lines j = find_colon lines (j + 1)"
      by (subst find_colon.simps) simp
    show ?thesis
    proof (cases "m = j")
      case True
      with \<open>j < length lines \<and> CHR '':'' \<notin> set (lines ! j)\<close> show ?thesis by simp
    next
      case False
      with 1 True eq show ?thesis by auto
    qed
  next
    case False
    then have "find_colon lines j = j" by (subst find_colon.simps) auto
    with 1 show ?thesis by simp
  qed
qed

lemma find_colon_eqI:
  assumes "j \<le> k" and "k < length lines" and "CHR '':'' \<in> set (lines ! k)"
    and "\<And>m. j \<le> m \<Longrightarrow> m < k \<Longrightarrow> CHR '':'' \<notin> set (lines ! m)"
  shows "find_colon lines j = k"
  using assms
proof (induction lines j rule: find_colon.induct)
  case (1 lines j)
  show ?case
  proof (cases "j = k")
    case True
    with 1 show ?thesis by (subst find_colon.simps) auto
  next
    case False
    with 1 have lt: "j < k" by simp
    with 1 have cont: "j < length lines \<and> CHR '':'' \<notin> set (lines ! j)" by auto
    then have "find_colon lines j = find_colon lines (j + 1)"
      by (subst find_colon.simps) simp
    also have "\<dots> = k" using 1 lt cont by (intro "1.IH") auto
    finally show ?thesis .
  qed
qed

lemma find_colon_agree:
  assumes "find_colon lines j < n" and "take n lines' = take n lines"
    and "n \<le> length lines" and "n \<le> length lines'"
  shows "find_colon lines' j = find_colon lines j"
proof -
  let ?k = "find_colon lines j"
  have nth: "lines' ! m = lines ! m" if "m < n" for m
    using that assms(2) by (metis nth_take)
  have k: "?k < length lines" using assms by simp
  show ?thesis
  proof (rule find_colon_eqI)
    show "j \<le> ?k" by (rule find_colon_ge)
    show "?k < length lines'" using assms by simp
    show "CHR '':'' \<in> set (lines' ! ?k)"
      using find_colon_stop [OF k] nth [OF assms(1)] by simp
    show "CHR '':'' \<notin> set (lines' ! m)" if "j \<le> m" "m < ?k" for m
      using find_colon_first [OF that] nth [of m] that assms(1) by simp
  qed
qed

lemma find_colon_mono: "j \<le> j' \<Longrightarrow> find_colon lines j \<le> find_colon lines j'"
proof (rule ccontr)
  assume le: "j \<le> j'" and "\<not> find_colon lines j \<le> find_colon lines j'"
  then have lt: "find_colon lines j' < find_colon lines j" by simp
  have "j \<le> find_colon lines j'" using le find_colon_ge [of j' lines] by simp
  from find_colon_first [OF this lt]
  have 1: "find_colon lines j' < length lines"
    and 2: "CHR '':'' \<notin> set (lines ! find_colon lines j')" by simp_all
  from find_colon_stop [OF 1] 2 show False by simp
qed

lemma weave_from_irrelevant:
  "fst pt < m \<Longrightarrow> weave_from m ls (pt # pts) = weave_from m ls pts"
  by (induction ls arbitrary: m) auto

lemma length_weave_from: "length ls \<le> length (weave_from m ls pts)"
  by (induction ls arbitrary: m) (simp_all add: trans_le_add2)

lemma weave_from_insert:
  assumes "m \<le> k" and "k < m + length ls" and "\<forall>pt \<in> set Q. k \<le> fst pt"
  shows "weave_from m ls ((k, b) # Q)
           = take (Suc (k - m)) ls @ b # drop (Suc (k - m)) (weave_from m ls Q)
         \<and> take (Suc (k - m)) (weave_from m ls Q) = take (Suc (k - m)) ls"
  using assms
proof (induction ls arbitrary: m)
  case Nil
  then show ?case by simp
next
  case (Cons l ls)
  show ?case
  proof (cases "k = m")
    case True
    have "weave_from (Suc m) ls ((k, b) # Q) = weave_from (Suc m) ls Q"
      using True by (intro weave_from_irrelevant) simp
    then show ?thesis using True by simp
  next
    case False
    with Cons.prems have lt: "m < k" by simp
    have none: "filter (\<lambda>pt. fst pt = m) Q = []"
      using Cons.prems(3) lt by (auto simp: filter_empty_conv)
    have IH: "weave_from (Suc m) ls ((k, b) # Q)
           = take (Suc (k - Suc m)) ls @ b # drop (Suc (k - Suc m)) (weave_from (Suc m) ls Q)
         \<and> take (Suc (k - Suc m)) (weave_from (Suc m) ls Q) = take (Suc (k - Suc m)) ls"
      using Cons.prems lt by (intro Cons.IH) auto
    have idx: "k - m = Suc (k - Suc m)" using lt by simp
    show ?thesis using IH lt none by (simp add: idx)
  qed
qed

lemma insert_doc_zero: "insert_doc lines (0, d) = (d @ [NL]) # lines"
  by (simp add: insert_doc_def list_insert_def)

lemma insert_doc_pos:
  "0 < L \<Longrightarrow> insert_doc lines (L, d)
     = take (Suc (find_colon lines (L - 1))) lines @ (d @ [NL])
         # drop (Suc (find_colon lines (L - 1))) lines"
  by (simp add: insert_doc_def list_insert_def Let_def)

lemma foldl_insert_doc_positive:
  assumes "sorted_wrt (\<lambda>a b. fst b \<le> fst a) ps"
    and "\<forall>e \<in> set ps. 0 < fst e \<and> insertion_point lines (fst e) < length lines"
  shows "foldl insert_doc lines ps
           = weave lines (rev (map (\<lambda>e. (insertion_point lines (fst e), snd e @ [NL])) ps))"
  using assms
proof (induction ps rule: rev_induct)
  case Nil
  have "weave_from m ls [] = ls" for m ls by (induction ls arbitrary: m) auto
  then show ?case by (simp add: weave_def)
next
  case (snoc x ps)
  obtain L d where x: "x = (L, d)" by (cases x)
  let ?pt = "\<lambda>e. (insertion_point lines (fst e), snd e @ [NL])"
  let ?Q = "rev (map ?pt ps)"
  let ?cur = "weave lines ?Q"
  let ?k = "insertion_point lines L"
  from snoc.prems have sorted: "sorted_wrt (\<lambda>a b. fst b \<le> fst a) ps"
    and ge: "\<forall>e \<in> set ps. L \<le> fst e"
    by (auto simp: sorted_wrt_append x)
  from snoc.prems have L: "0 < L" and k: "?k < length lines" by (auto simp: x)
  have cur: "foldl insert_doc lines ps = ?cur"
    using snoc.prems sorted by (intro snoc.IH) auto
  have Q: "\<forall>pt \<in> set ?Q. ?k \<le> fst pt"
    using ge by (auto simp: insertion_point_def intro!: find_colon_mono)
  from weave_from_insert [of 0 ?k lines ?Q "d @ [NL]"] k Q
  have w1: "weave lines ((?k, d @ [NL]) # ?Q)
             = take (Suc ?k) lines @ (d @ [NL]) # drop (Suc ?k) ?cur"
    and w2: "take (Suc ?k) ?cur = take (Suc ?k) lines"
    by (simp_all add: weave_def)
  have len: "Suc ?k \<le> length ?cur"
    using k length_weave_from [of lines 0 ?Q] by (simp add: weave_def)
  have fc: "find_colon ?cur (L - 1) = ?k"
    unfolding insertion_point_def
    using k w2 len by (intro find_colon_agree [where n = "Suc (find_colon lines (L - 1))"])
      (simp_all add: insertion_point_def)
  have "foldl insert_doc lines (ps @ [x]) = insert_doc ?cur (L, d)"
    by (simp add: cur x)
  also have "\<dots> = take (Suc ?k) ?cur @ (d @ [NL]) # drop (Suc ?k) ?cur"
    using insert_doc_pos [OF L, of ?cur d] by (simp only: fc)
  also have "\<dots> = weave lines ((?k, d @ [NL]) # ?Q)"
    by (simp add: w1 w2)
  finally show ?case by (simp add: x)
qed

lemma foldl_insert_doc_zeros:
  "\<forall>e \<in> set zs. fst e = 0 \<Longrightarrow>
   foldl insert_doc cur zs = map (\<lambda>e. snd e @ [NL]) (rev zs) @ cur"
proof (induction zs arbitrary: cur)
  case Nil
  then show ?case by simp
next
  case (Cons z zs)
  obtain d where z: "z = (0, d)" using Cons.prems by (cases z) auto
  show ?case using Cons by (simp add: z insert_doc_zero)
qed

lemma descending_split:
  "sorted_wrt (\<lambda>a b. fst b \<le> fst a) ps \<Longrightarrow>
   ps = filter (\<lambda>e. 0 < fst e) ps @ filter (\<lambda>e. fst e = (0::nat)) ps"
proof (induction ps)
  case Nil
  then show ?case by simp
next
  case (Cons x ps)
  show ?case
  proof (cases "fst x = 0")
    case True
    with Cons.prems have "\<forall>e \<in> set ps. fst e = 0" by auto
    then have "filter (\<lambda>e. 0 < fst e) ps = []" "filter (\<lambda>e. fst e = 0) ps = ps"
      by (auto simp: filter_empty_conv filter_id_conv)
    with True show ?thesis by simp
  next
    case False
    with Cons show ?thesis by simp
  qed
qed

lemma sort_descending_sorted: "sorted_wrt (\<lambda>a b. fst b \<le> fst a) (sort_descending to_add)"
proof -
  have "sorted (map fst (sort_key fst (rev to_add)))" by (rule sorted_sort_key)
  then have "sorted_wrt (\<lambda>a b. fst a \<le> fst b) (sort_key fst (rev to_add))"
    by (simp add: sorted_wrt_map)
  then show ?thesis by (simp add: sort_descending_def sorted_wrt_rev)
qed

lemma set_sort_descending: "set (sort_descending to_add) = set to_add"
  by (simp add: sort_descending_def)

subsection \<open>The insertion point\<close>

text \<open>
  The inserter in one forward pass: when for every pending type or callable the scan finds
  a line with a colon, the rewritten text is the original lines in order, each followed by
  the blocks of the declarations whose insertion point it is, with the module's block on
  top. The insertion point of a declaration is the first line, at or after its header
  line, that contains a colon anywhere.
\<close>

theorem rewrite_lines_weave:
  assumes "\<forall>e \<in> set to_add. 0 < fst e \<longrightarrow> insertion_point lines (fst e) < length lines"
  shows "rewrite_lines lines to_add =
           map (\<lambda>e. snd e @ [NL]) (rev (filter (\<lambda>e. fst e = 0) (sort_descending to_add)))
           @ weave lines
               (rev (map (\<lambda>e. (insertion_point lines (fst e), snd e @ [NL]))
                         (filter (\<lambda>e. 0 < fst e) (sort_descending to_add))))
         \<and> (\<forall>e \<in> set to_add. 0 < fst e \<longrightarrow>
               fst e - 1 \<le> insertion_point lines (fst e)
               \<and> CHR '':'' \<in> set (lines ! insertion_point lines (fst e))
               \<and> (\<forall>m. fst e - 1 \<le> m \<and> m < insertion_point lines (fst e)
                        \<longrightarrow> CHR '':'' \<notin> set (lines ! m)))"
proof -
  let ?ps = "sort_descending to_add"
  let ?pos = "filter (\<lambda>e. 0 < fst e) ?ps" and ?zeros = "filter (\<lambda>e. fst e = 0) ?ps"
  have split: "?ps = ?pos @ ?zeros"
    using sort_descending_sorted by (rule descending_split)
  have sorted_pos: "sorted_wrt (\<lambda>a b. fst b \<le> fst a) ?pos"
    using sort_descending_sorted [of to_add] by (rule sorted_wrt_filter)
  have pos: "foldl insert_doc lines ?pos
           = weave lines (rev (map (\<lambda>e. (insertion_point lines (fst e), snd e @ [NL])) ?pos))"
    using sorted_pos assms by (intro foldl_insert_doc_positive) (auto simp: set_sort_descending)
  have "rewrite_lines lines to_add = foldl insert_doc (foldl insert_doc lines ?pos) ?zeros"
    unfolding rewrite_lines_def by (subst split) simp
  also have "\<dots> = map (\<lambda>e. snd e @ [NL]) (rev ?zeros) @ foldl insert_doc lines ?pos"
    by (intro foldl_insert_doc_zeros) simp
  finally have 1: "rewrite_lines lines to_add =
           map (\<lambda>e. snd e @ [NL]) (rev ?zeros)
           @ weave lines (rev (map (\<lambda>e. (insertion_point lines (fst e), snd e @ [NL])) ?pos))"
    by (simp only: pos)
  have 2: "fst e - 1 \<le> insertion_point lines (fst e)
               \<and> CHR '':'' \<in> set (lines ! insertion_point lines (fst e))
               \<and> (\<forall>m. fst e - 1 \<le> m \<and> m < insertion_point lines (fst e)
                        \<longrightarrow> CHR '':'' \<notin> set (lines ! m))"
    if "e \<in> set to_add" "0 < fst e" for e
  proof -
    have k: "insertion_point lines (fst e) < length lines" using assms that by blast
    show ?thesis
      using find_colon_ge [of "fst e - 1" lines] find_colon_stop [of lines "fst e - 1"] k
        find_colon_first [of "fst e - 1" _ lines]
      by (auto simp: insertion_point_def)
  qed
  from 1 2 show ?thesis by blast
qed

text \<open>The header wrapped across lines 2 to 4, without annotations: the scan from line 2
  stops at index 3 and the block follows the third header line.\<close>

theorem rewrite_lines_weave_witness:
  \<open>collect_to_add ''m.py'' (readlines plain_header_src) (run_extractor three_line_header_tree)
     = Inr [(2, generate_google_docstring ''f'' (Some [''a'', ''b'', ''c'']) False 4)]
   \<and> insertion_point (readlines plain_header_src) 2 = 3
   \<and> rewrite_lines (readlines plain_header_src)
        [(2, generate_google_docstring ''f'' (Some [''a'', ''b'', ''c'']) False 4)]
     = [''"""Doc."""\<newline>'',
        ''def f(a,\<newline>'',
        ''      b,\<newline>'',
        ''      c):\<newline>'',
        generate_google_docstring ''f'' (Some [''a'', ''b'', ''c'']) False 4 @ [NL],
        ''    return a\<newline>'']\<close>
proof -
  let ?lines = "readlines plain_header_src"
  let ?D = "generate_google_docstring ''f'' (Some [''a'', ''b'', ''c'']) False 4"
  have lines: \<open>?lines = [''"""Doc."""\<newline>'', ''def f(a,\<newline>'', ''      b,\<newline>'',
                          ''      c):\<newline>'', ''    return a\<newline>'']\<close>
    by code_simp
  have c: "collect_to_add ''m.py'' ?lines (run_extractor three_line_header_tree)
             = Inr [(2, ?D)]"
    by code_simp
  have ip: "insertion_point ?lines 2 = 3"
    by code_simp
  have h: "\<forall>e \<in> set [(2, ?D)]. 0 < fst e \<longrightarrow> insertion_point ?lines (fst e) < length ?lines"
    by (simp add: ip) (simp add: lines)
  have "rewrite_lines ?lines [(2, ?D)] = weave ?lines [(3, ?D @ [NL])]"
    using rewrite_lines_weave [OF h] by (simp add: sort_descending_def ip)
  also have \<open>\<dots> = [''"""Doc."""\<newline>'', ''def f(a,\<newline>'', ''      b,\<newline>'',
                       ''      c):\<newline>'', ?D @ [NL], ''    return a\<newline>'']\<close>
    unfolding lines by (simp add: weave_def)
  finally show ?thesis using c ip by simp
qed

text \<open>
  C7: for a header wrapped across three physical lines with the terminator on the third
  line, the block is to be inserted after the third line, not the first. The scan stops at
  the first line that contains a colon anywhere, not at the line that ends the header:
  with annotated parameters the first header line \<^verbatim>\<open>def f(a: int,\<close> already
  contains a colon, the insertion point found from line 2 is that line (index 1) and not
  the line with the terminator (index 3), and the block is inserted after the first
  header line, inside the parameter list.
\<close>

theorem insertion_inside_annotated_header:
  \<open>insertion_point (readlines annotated_header_src) 2 = 1
   \<and> map_sum id (rewrite_lines (readlines annotated_header_src))
     (collect_to_add ''m.py'' (readlines annotated_header_src)
        (run_extractor three_line_header_tree))
   = Inr [''"""Doc."""\<newline>'',
          ''def f(a: int,\<newline>'',
          generate_google_docstring ''f'' (Some [''a'', ''b'', ''c'']) False 4 @ [NL],
          ''      b: int,\<newline>'',
          ''      c: int):\<newline>'',
          ''    return a\<newline>'']\<close>
  by code_simp

subsection \<open>The round trip\<close>

text \<open>
  C1: the round trip fails for a file whose function header is wrapped after an annotated
  parameter. The inserter puts the block after the first header line, inside the
  parameter list; the rewritten text does not parse, so re-running the extractor raises
  \<^verbatim>\<open>SyntaxError\<close> instead of reporting the function as documented.
\<close>

theorem apply_missing_docstrings_wrapped_header:
  \<open>\<exists>fs'. apply_missing_docstrings wrapped_add_parse [''m.py'' \<mapsto> File wrapped_add_src] ''m.py''
           = Inr fs'
     \<and> fs' ''m.py'' = Some (File
          ''"""M.py module."""\<newline>\<newline>def add(a: int,\<newline>    """Add.\<newline>\<newline>    Args:\<newline>        a: Description of a.\<newline>        b: Description of b.\<newline>\<newline>    Returns:\<newline>        Description of the return value.\<newline>    """\<newline>        b: int):\<newline>    return a + b\<newline>'')
     \<and> analyze_file wrapped_add_parse fs' ''m.py'' = Inl SyntaxError\<close>
proof -
  have a: "analyze_file wrapped_add_parse [''m.py'' \<mapsto> File wrapped_add_src] ''m.py''
             = Inr (run_extractor wrapped_add_tree)"
    by (simp add: analyze_file_def read_text_def wrapped_add_parse_def)
  have r: "read_text [''m.py'' \<mapsto> File wrapped_add_src] ''m.py'' = Inr wrapped_add_src"
    by (simp add: read_text_def)
  have t: \<open>map_sum id (\<lambda>to_add. concat (rewrite_lines (readlines wrapped_add_src) to_add))
             (collect_to_add ''m.py'' (readlines wrapped_add_src) (run_extractor wrapped_add_tree))
           = Inr ''"""M.py module."""\<newline>\<newline>def add(a: int,\<newline>    """Add.\<newline>\<newline>    Args:\<newline>        a: Description of a.\<newline>        b: Description of b.\<newline>\<newline>    Returns:\<newline>        Description of the return value.\<newline>    """\<newline>        b: int):\<newline>    return a + b\<newline>''\<close>
    by code_simp
  have ne: \<open>''"""M.py module."""\<newline>\<newline>def add(a: int,\<newline>    """Add.\<newline>\<newline>    Args:\<newline>        a: Description of a.\<newline>        b: Description of b.\<newline>\<newline>    Returns:\<newline>        Description of the return value.\<newline>    """\<newline>        b: int):\<newline>    return a + b\<newline>'' \<noteq> wrapped_add_src\<close>
    by (simp add: wrapped_add_src_def)
  show ?thesis
    using t ne
    by (cases "collect_to_add ''m.py'' (readlines wrapped_add_src) (run_extractor wrapped_add_tree)")
       (simp_all add: apply_missing_docstrings_def a r Let_def analyze_file_def read_text_def
          wrapped_add_parse_def)
qed

end
